theory Spec2Isabelle
  imports Main
begin

section \<open>Values that travel through the feed service\<close>

text \<open>
  Event payloads and HTTP bodies are JSON. \<open>JSON.parse\<close> yields one of these values;
  numbers are kept to the integers (the service only handles epoch milliseconds and
  counters).
\<close>

datatype json =
    JNull
  | JBool bool
  | JNum int
  | JStr string
  | JArr "json list"
  | JObj "(string \<times> json) list"

type_synonym timestamp = int

text \<open>
  Property access \<open>v.k\<close> on a parsed JSON value, for the property names the service
  reads (\<open>postId\<close>, \<open>userId\<close>, \<open>createdAt\<close>, \<open>followerId\<close>, \<open>followingId\<close>,
  \<open>posts\<close>, \<open>created_at\<close>, \<open>id\<close>). \<open>None\<close> is JavaScript's \<open>undefined\<close>. Of a
  repeated key the last occurrence counts. Access on \<open>null\<close> throws and is handled
  where the source destructures.
\<close>

fun js_prop :: "json \<Rightarrow> string \<Rightarrow> json option" where
  "js_prop (JObj kvs) k = map_of (rev kvs) k"
| "js_prop _ k = None"

text \<open>
  What the service takes from outside its own file: the UUID class of the Cassandra
  driver, the \<open>Date\<close> constructor, and the two Post service routes it calls through
  axios. \<open>'u\<close> is the type of UUID values.
  \<^item> \<open>Uuid_fromString s\<close> is \<open>None\<close> where \<open>cassandra.types.Uuid.fromString(s)\<close> throws;
  \<^item> \<open>Date_time v\<close> is the time value of \<open>new Date(v)\<close>, \<open>None\<close> for an Invalid Date;
  \<^item> \<open>axios_get_post i\<close> is the body of \<open>GET /api/posts/i\<close>, \<open>None\<close> where axios
    throws (a 404, a 500, a network failure);
  \<^item> \<open>axios_get_user_posts i\<close> is the body of \<open>GET /api/posts/user/i?limit=20\<close>,
    \<open>None\<close> where axios throws.
\<close>

record 'u env =
  Uuid_fromString :: "string \<Rightarrow> 'u option"
  Uuid_toString :: "'u \<Rightarrow> string"
  Date_time :: "json \<Rightarrow> timestamp option"
  axios_get_post :: "string \<Rightarrow> json option"
  axios_get_user_posts :: "string \<Rightarrow> json option"

text \<open>\<open>Uuid.fromString(v)\<close> on a payload field: anything but a string throws.\<close>

fun uuid_of :: "'u env \<Rightarrow> json option \<Rightarrow> 'u option" where
  "uuid_of env (Some (JStr s)) = Uuid_fromString env s"
| "uuid_of env _ = None"

text \<open>\<open>new Date(v)\<close> on a payload field; \<open>new Date(undefined)\<close> is an Invalid Date.\<close>

fun new_Date :: "'u env \<Rightarrow> json option \<Rightarrow> timestamp option" where
  "new_Date env None = None"
| "new_Date env (Some v) = Date_time env v"

section \<open>The stores\<close>

text \<open>
  A row of \<open>user_feeds\<close> without its partition key. The table has
  \<open>PRIMARY KEY (user_id, created_at)\<close> and \<open>CLUSTERING ORDER BY (created_at DESC)\<close>:
  a partition is kept as the list of its rows, newest first.
\<close>

record 'u feed_row =
  created_at :: timestamp
  post_id :: 'u
  author_id :: 'u

text \<open>What \<open>GET /api/feed\<close> sends and caches: \<open>{posts, hasMore, offset}\<close>.\<close>

record page =
  posts :: "json list"
  hasMore :: bool
  offset :: "int option"

text \<open>
  ScyllaDB holds \<open>user_feeds\<close>, \<open>user_followers\<close> and \<open>user_following\<close> (the
  \<open>created_at\<close> column of the two edge tables is never read and is left out). Redis
  holds the follower and following sets under \<open>user:...\<close> keys and the cached pages,
  each with the second at which it expires, under \<open>feed_cache:...\<close> keys. An absent
  set is the empty list.
\<close>

record 'u state =
  user_feeds :: "'u \<Rightarrow> 'u feed_row list"
  user_followers :: "'u \<Rightarrow> 'u list"
  user_following :: "'u \<Rightarrow> 'u list"
  redis_sets :: "string \<Rightarrow> string list"
  redis_cache :: "string \<Rightarrow> (page \<times> nat) option"

text \<open>\<open>INSERT INTO user_feeds\<close>: an upsert on the clustering key \<open>created_at\<close>.\<close>

fun upsert :: "'u feed_row \<Rightarrow> 'u feed_row list \<Rightarrow> 'u feed_row list" where
  "upsert r [] = [r]"
| "upsert r (x # xs) =
     (if created_at x < created_at r then r # x # xs
      else if created_at x = created_at r then r # xs
      else x # upsert r xs)"

definition insert_user_feeds :: "'u \<Rightarrow> 'u feed_row \<Rightarrow> 'u state \<Rightarrow> 'u state" where
  "insert_user_feeds owner r s = s\<lparr>user_feeds := (user_feeds s)(owner := upsert r (user_feeds s owner))\<rparr>"

definition insert_user_followers :: "'u \<Rightarrow> 'u \<Rightarrow> 'u state \<Rightarrow> 'u state" where
  "insert_user_followers u f s = s\<lparr>user_followers := (user_followers s)(u := List.insert f (user_followers s u))\<rparr>"

definition insert_user_following :: "'u \<Rightarrow> 'u \<Rightarrow> 'u state \<Rightarrow> 'u state" where
  "insert_user_following u f s = s\<lparr>user_following := (user_following s)(u := List.insert f (user_following s u))\<rparr>"

definition delete_user_followers :: "'u \<Rightarrow> 'u \<Rightarrow> 'u state \<Rightarrow> 'u state" where
  "delete_user_followers u f s = s\<lparr>user_followers := (user_followers s)(u := removeAll f (user_followers s u))\<rparr>"

definition delete_user_following :: "'u \<Rightarrow> 'u \<Rightarrow> 'u state \<Rightarrow> 'u state" where
  "delete_user_following u f s = s\<lparr>user_following := (user_following s)(u := removeAll f (user_following s u))\<rparr>"

text \<open>Redis commands. \<open>DEL\<close> removes the key whatever it holds.\<close>

definition sMembers :: "'u state \<Rightarrow> string \<Rightarrow> string list" where
  "sMembers s k = redis_sets s k"

definition sAdd :: "string \<Rightarrow> string \<Rightarrow> 'u state \<Rightarrow> 'u state" where
  "sAdd k m s = s\<lparr>redis_sets := (redis_sets s)(k := List.insert m (redis_sets s k))\<rparr>"

definition sRem :: "string \<Rightarrow> string \<Rightarrow> 'u state \<Rightarrow> 'u state" where
  "sRem k m s = s\<lparr>redis_sets := (redis_sets s)(k := removeAll m (redis_sets s k))\<rparr>"

definition redis_del :: "string \<Rightarrow> 'u state \<Rightarrow> 'u state" where
  "redis_del k s = s\<lparr>redis_sets := (redis_sets s)(k := []), redis_cache := (redis_cache s)(k := None)\<rparr>"

definition redis_get :: "nat \<Rightarrow> 'u state \<Rightarrow> string \<Rightarrow> page option" where
  "redis_get now s k =
     (case redis_cache s k of
        None \<Rightarrow> None
      | Some (v, expires) \<Rightarrow> if now < expires then Some v else None)"

definition setEx :: "nat \<Rightarrow> string \<Rightarrow> nat \<Rightarrow> page \<Rightarrow> 'u state \<Rightarrow> 'u state" where
  "setEx now k ttl v s = s\<lparr>redis_cache := (redis_cache s)(k \<mapsto> (v, now + ttl))\<rparr>"

section \<open>Redis keys\<close>

fun show_nat :: "nat \<Rightarrow> string" where
  "show_nat n =
     (if n < 10 then [''0123456789'' ! n]
      else show_nat (n div 10) @ [''0123456789'' ! (n mod 10)])"

declare show_nat.simps [simp del]

text \<open>A number inside a template literal; \<open>None\<close> is \<open>NaN\<close>.\<close>

definition show_num :: "int option \<Rightarrow> string" where
  "show_num v =
     (case v of
        None \<Rightarrow> ''NaN''
      | Some i \<Rightarrow> if i < 0 then ''-'' @ show_nat (nat (- i)) else show_nat (nat i))"

definition followers_key :: "string \<Rightarrow> string" where
  "followers_key userId = ''user:'' @ userId @ '':followers''"

definition following_key :: "string \<Rightarrow> string" where
  "following_key userId = ''user:'' @ userId @ '':following''"

text \<open>The key the event handlers delete: \<open>feed_cache:${followerId}\<close>.\<close>

definition handler_cache_key :: "string \<Rightarrow> string" where
  "handler_cache_key followerId = ''feed_cache:'' @ followerId"

text \<open>The key a page is cached under: \<open>feed_cache:${userId}:${offsetInt}:${limitInt}\<close>.\<close>

definition page_cache_key :: "string \<Rightarrow> int option \<Rightarrow> int option \<Rightarrow> string" where
  "page_cache_key userId offsetInt limitInt =
     ''feed_cache:'' @ userId @ '':'' @ show_num offsetInt @ '':'' @ show_num limitInt"

section \<open>Event handlers\<close>

datatype error = TypeError | UuidError | DateError

text \<open>\<open>new Set([...])\<close>: duplicates dropped, first occurrences kept in order.\<close>

definition js_Set :: "'a list \<Rightarrow> 'a list" where
  "js_Set xs = rev (remdups (rev xs))"

text \<open>
  One element of \<open>insertPromises\<close>: a follower id that is no UUID is logged and skipped.
\<close>

definition fanout_insert :: "'u env \<Rightarrow> timestamp \<Rightarrow> 'u \<Rightarrow> 'u \<Rightarrow> string \<Rightarrow> 'u state \<Rightarrow> 'u state" where
  "fanout_insert env ts postUuid authorUuid followerId s =
     (case Uuid_fromString env followerId of
        None \<Rightarrow> s
      | Some followerUuid \<Rightarrow>
          insert_user_feeds followerUuid
            \<lparr>created_at = ts, post_id = postUuid, author_id = authorUuid\<rparr> s)"

text \<open>The set \<open>allFollowers\<close> of \<open>handlePostCreated\<close>, in its iteration order.\<close>

definition allFollowers :: "'u env \<Rightarrow> 'u state \<Rightarrow> 'u \<Rightarrow> string \<Rightarrow> string list" where
  "allFollowers env s authorUuid userId =
     (let followers = user_followers s authorUuid;
          redisFollowers = sMembers s (followers_key userId)
      in js_Set (map (Uuid_toString env) followers @ redisFollowers @ [userId]))"

text \<open>
  \<open>handlePostCreated\<close>. Destructuring \<open>null\<close> throws; so do the two
  \<open>Uuid.fromString\<close> calls on a bad \<open>postId\<close> or \<open>userId\<close>; an Invalid Date makes
  every insert reject, and \<open>Promise.all\<close> with them. All of this happens before the
  first write, so a throw leaves the state as it was.
\<close>

definition handlePostCreated :: "'u env \<Rightarrow> 'u state \<Rightarrow> json \<Rightarrow> error + 'u state" where
  "handlePostCreated env s data =
     (if data = JNull then Inl TypeError
      else
        let timestamp = new_Date env (js_prop data ''createdAt'') in
        case uuid_of env (js_prop data ''postId'') of
          None \<Rightarrow> Inl UuidError
        | Some postUuid \<Rightarrow>
            (case js_prop data ''userId'' of
               Some (JStr userId) \<Rightarrow>
                 (case Uuid_fromString env userId of
                    None \<Rightarrow> Inl UuidError
                  | Some authorUuid \<Rightarrow>
                      let targets = allFollowers env s authorUuid userId in
                        (case timestamp of
                           None \<Rightarrow> Inl DateError
                         | Some ts \<Rightarrow>
                             Inr (fold (\<lambda>followerId. redis_del (handler_cache_key followerId))
                                    targets
                                    (fold (fanout_insert env ts postUuid authorUuid)
                                       targets s))))
             | _ \<Rightarrow> Inl UuidError))"

text \<open>\<open>handlePostDeleted\<close>: reads the followers and writes nothing.\<close>

definition handlePostDeleted :: "'u env \<Rightarrow> 'u state \<Rightarrow> json \<Rightarrow> error + 'u state" where
  "handlePostDeleted env s data =
     (if data = JNull then Inl TypeError
      else
        case uuid_of env (js_prop data ''postId'') of
          None \<Rightarrow> Inl UuidError
        | Some postUuid \<Rightarrow>
            (case uuid_of env (js_prop data ''userId'') of
               None \<Rightarrow> Inl UuidError
             | Some authorUuid \<Rightarrow>
                 let followersResult = user_followers s authorUuid in Inr s))"

text \<open>
  \<open>response.data.posts || []\<close> followed by \<open>for (const post of posts)\<close>: \<open>None\<close> where
  this throws (a \<open>null\<close> body, a truthy value that cannot be iterated). A non-empty
  string is iterated character by character.
\<close>

fun response_posts :: "json \<Rightarrow> json list option" where
  "response_posts JNull = None"
| "response_posts body =
     (case js_prop body ''posts'' of
        None \<Rightarrow> Some []
      | Some JNull \<Rightarrow> Some []
      | Some (JBool b) \<Rightarrow> if b then None else Some []
      | Some (JNum n) \<Rightarrow> if n = 0 then Some [] else None
      | Some (JStr t) \<Rightarrow> Some (map (\<lambda>c. JStr [c]) t)
      | Some (JArr ps) \<Rightarrow> Some ps
      | Some (JObj kvs) \<Rightarrow> None)"

text \<open>
  The backfill loop of \<open>handleUserFollowed\<close>. The flag is \<open>False\<close> where an iteration
  throws (a \<open>null\<close> post, an id that is no UUID, an Invalid Date rejected by the
  insert); the rows inserted before stay.
\<close>

fun backfill_loop :: "'u env \<Rightarrow> 'u \<Rightarrow> 'u \<Rightarrow> json list \<Rightarrow> 'u state \<Rightarrow> bool \<times> 'u state" where
  "backfill_loop env followerUuid followingUuid [] s = (True, s)"
| "backfill_loop env followerUuid followingUuid (post # rest) s =
     (if post = JNull then (False, s)
      else
        let postTimestamp = new_Date env (js_prop post ''created_at'') in
        case uuid_of env (js_prop post ''id'') of
          None \<Rightarrow> (False, s)
        | Some postUuid \<Rightarrow>
            (case postTimestamp of
               None \<Rightarrow> (False, s)
             | Some ts \<Rightarrow>
                 backfill_loop env followerUuid followingUuid rest
                   (insert_user_feeds followerUuid
                      \<lparr>created_at = ts, post_id = postUuid, author_id = followingUuid\<rparr> s)))"

text \<open>The \<open>try\<close> block of \<open>handleUserFollowed\<close>; its \<open>catch\<close> only logs.\<close>

definition backfill :: "'u env \<Rightarrow> string \<Rightarrow> 'u \<Rightarrow> string \<Rightarrow> 'u \<Rightarrow> 'u state \<Rightarrow> 'u state" where
  "backfill env followerId followerUuid followingId followingUuid s =
     (case axios_get_user_posts env followingId of
        None \<Rightarrow> s
      | Some body \<Rightarrow>
          (case response_posts body of
             None \<Rightarrow> s
           | Some ps \<Rightarrow>
               (case backfill_loop env followerUuid followingUuid ps s of
                  (False, s') \<Rightarrow> s'
                | (True, s') \<Rightarrow> redis_del (handler_cache_key followerId) s')))"

text \<open>
  \<open>handleUserFollowed\<close>. Ids that are no UUIDs are logged and the handler returns.
\<close>

definition handleUserFollowed :: "'u env \<Rightarrow> 'u state \<Rightarrow> json \<Rightarrow> error + 'u state" where
  "handleUserFollowed env s data =
     (if data = JNull then Inl TypeError
      else
        case (js_prop data ''followerId'', js_prop data ''followingId'') of
          (Some (JStr followerId), Some (JStr followingId)) \<Rightarrow>
            (case (Uuid_fromString env followerId, Uuid_fromString env followingId) of
               (Some followerUuid, Some followingUuid) \<Rightarrow>
                 Inr (backfill env followerId followerUuid followingId followingUuid
                        (sAdd (followers_key followingId) followerId
                          (sAdd (following_key followerId) followingId
                            (insert_user_following followerUuid followingUuid
                              (insert_user_followers followingUuid followerUuid s)))))
             | _ \<Rightarrow> Inr s)
        | _ \<Rightarrow> Inr s)"

text \<open>\<open>handleUserUnfollowed\<close>.\<close>

definition handleUserUnfollowed :: "'u env \<Rightarrow> 'u state \<Rightarrow> json \<Rightarrow> error + 'u state" where
  "handleUserUnfollowed env s data =
     (if data = JNull then Inl TypeError
      else
        case (js_prop data ''followerId'', js_prop data ''followingId'') of
          (Some (JStr followerId), Some (JStr followingId)) \<Rightarrow>
            (case (Uuid_fromString env followerId, Uuid_fromString env followingId) of
               (Some followerUuid, Some followingUuid) \<Rightarrow>
                 Inr (redis_del (handler_cache_key followerId)
                        (sRem (followers_key followingId) followerId
                          (sRem (following_key followerId) followingId
                            (delete_user_following followerUuid followingUuid
                              (delete_user_followers followingUuid followerUuid s)))))
             | _ \<Rightarrow> Inr s)
        | _ \<Rightarrow> Inr s)"

text \<open>
  A consumed message: its routing key and the outcome of \<open>JSON.parse\<close> on its content,
  \<open>None\<close> where the parse throws.
\<close>

record message =
  routingKey :: string
  content :: "json option"

datatype ack = Ack | Nack_requeue

definition dispatch :: "'u env \<Rightarrow> 'u state \<Rightarrow> string \<Rightarrow> json \<Rightarrow> error + 'u state" where
  "dispatch env s key data =
     (if key = ''post.created'' then handlePostCreated env s data
      else if key = ''post.deleted'' then handlePostDeleted env s data
      else if key = ''user.followed'' then handleUserFollowed env s data
      else if key = ''user.unfollowed'' then handleUserUnfollowed env s data
      else Inr s)"

text \<open>\<open>handleEvent\<close>: whatever is thrown inside the \<open>try\<close> ends in \<open>nack\<close> with requeue.\<close>

definition handleEvent :: "'u env \<Rightarrow> 'u state \<Rightarrow> message \<Rightarrow> ack \<times> 'u state" where
  "handleEvent env s msg =
     (case content msg of
        None \<Rightarrow> (Nack_requeue, s)
      | Some data \<Rightarrow>
          (case dispatch env s (routingKey msg) data of
             Inl e \<Rightarrow> (Nack_requeue, s)
           | Inr s' \<Rightarrow> (Ack, s')))"

definition run_events :: "'u env \<Rightarrow> 'u state \<Rightarrow> message list \<Rightarrow> 'u state" where
  "run_events env s msgs = foldl (\<lambda>st m. snd (handleEvent env st m)) s msgs"

section \<open>The read path\<close>

datatype response = Json page | Status400 | Status500

text \<open>\<open>Array.prototype.slice(a, b)\<close>.\<close>

definition js_slice :: "'a list \<Rightarrow> int \<Rightarrow> int \<Rightarrow> 'a list" where
  "js_slice xs a b =
     (let n = int (length xs);
          k = (if a < 0 then max (n + a) 0 else min a n);
          e = (if b < 0 then max (n + b) 0 else min b n)
      in take (nat (e - k)) (drop (nat k) xs))"

text \<open>The hydration loop: a post that does not resolve is logged and skipped.\<close>

fun hydrate :: "'u env \<Rightarrow> 'u feed_row list \<Rightarrow> json list \<Rightarrow> json list" where
  "hydrate env [] acc = acc"
| "hydrate env (item # items) acc =
     (case axios_get_post env (Uuid_toString env (post_id item)) of
        None \<Rightarrow> hydrate env items acc
      | Some body \<Rightarrow> hydrate env items (acc @ [body]))"

text \<open>A bound \<open>LIMIT\<close> must be a positive 32-bit integer, or the query is rejected.\<close>

definition valid_limit :: "int \<Rightarrow> bool" where
  "valid_limit n = (1 \<le> n \<and> n \<le> 2147483647)"

text \<open>
  \<open>GET /api/feed\<close> for the authenticated \<open>userId\<close> at second \<open>now\<close>; \<open>limitInt\<close> and
  \<open>offsetInt\<close> are the results of \<open>parseInt\<close>, \<open>None\<close> for \<open>NaN\<close>.
\<close>

definition get_feed ::
  "'u env \<Rightarrow> nat \<Rightarrow> 'u state \<Rightarrow> string \<Rightarrow> int option \<Rightarrow> int option \<Rightarrow> response \<times> 'u state" where
  "get_feed env now s userId limitInt offsetInt =
     (let cacheKey = page_cache_key userId offsetInt limitInt in
      case redis_get now s cacheKey of
        Some cached \<Rightarrow> (Json cached, s)
      | None \<Rightarrow>
          (case Uuid_fromString env userId of
             None \<Rightarrow> (Status400, s)
           | Some userUuid \<Rightarrow>
               (case (limitInt, offsetInt) of
                  (Some l, Some ofs) \<Rightarrow>
                    if \<not> valid_limit (l + ofs + 1) then (Status500, s)
                    else
                      let rows = take (nat (l + ofs + 1)) (user_feeds s userUuid);
                          feedItems = js_slice rows ofs (ofs + l)
                      in
                        if feedItems = [] then
                          (Json \<lparr>posts = [], hasMore = False, offset = None\<rparr>, s)
                        else
                          let ps = hydrate env feedItems [];
                              more = (int (length rows) > ofs + l);
                              responseData =
                                \<lparr>posts = ps, hasMore = more, offset = Some (ofs + int (length ps))\<rparr>
                          in (Json responseData, setEx now cacheKey 120 responseData s)
                | _ \<Rightarrow> (Status500, s))))"

section \<open>The Post service route behind the backfill\<close>

text \<open>
  The columns of \<open>posts\<close> the feed service reads. \<open>GET /api/posts/user/:userId\<close> runs
  \<open>SELECT * FROM posts WHERE user_id = $1 [AND created_at < $2] ORDER BY created_at DESC
  LIMIT n\<close> and answers \<open>{posts: rows, nextCursor}\<close>. \<open>dj\<close> renders a time value the way
  \<open>res.json\<close> does.
\<close>

record post_row =
  p_id :: string
  p_user_id :: string
  p_created_at :: timestamp

definition select_user_posts ::
  "post_row list \<Rightarrow> string \<Rightarrow> timestamp option \<Rightarrow> nat \<Rightarrow> post_row list" where
  "select_user_posts tbl userId cursor lim =
     take lim (sort_key (\<lambda>p. - p_created_at p)
       (filter (\<lambda>p. p_user_id p = userId \<and>
                  (case cursor of None \<Rightarrow> True | Some c \<Rightarrow> p_created_at p < c)) tbl))"

definition row_json :: "(timestamp \<Rightarrow> json) \<Rightarrow> post_row \<Rightarrow> json" where
  "row_json dj p =
     JObj [(''id'', JStr (p_id p)), (''user_id'', JStr (p_user_id p)),
           (''created_at'', dj (p_created_at p))]"

definition user_posts_body :: "(timestamp \<Rightarrow> json) \<Rightarrow> post_row list \<Rightarrow> json" where
  "user_posts_body dj rows =
     JObj [(''posts'', JArr (map (row_json dj) rows)),
           (''nextCursor'', if rows = [] then JNull else dj (p_created_at (last rows)))]"

section \<open>Notions the properties are stated with\<close>

text \<open>The UUIDs a list of follower id strings stands for.\<close>

definition fanout_targets :: "'u env \<Rightarrow> string list \<Rightarrow> 'u set" where
  "fanout_targets env ids = set (List.map_filter (Uuid_fromString env) ids)"

text \<open>
  The followers of an author at dispatch time: the rows of \<open>user_followers\<close> and the
  members of the Redis set \<open>user:<id>:followers\<close> that are UUIDs.
\<close>

definition followers_of :: "'u env \<Rightarrow> 'u state \<Rightarrow> 'u \<Rightarrow> string \<Rightarrow> 'u set" where
  "followers_of env s authorUuid userId =
     set (user_followers s authorUuid) \<union> fanout_targets env (redis_sets s (followers_key userId))"

text \<open>The state a completed \<open>handlePostCreated\<close> leaves, in closed form.\<close>

definition published :: "'u env \<Rightarrow> 'u state \<Rightarrow> 'u \<Rightarrow> 'u \<Rightarrow> string \<Rightarrow> timestamp \<Rightarrow> 'u state" where
  "published env s p a userId ts =
     s\<lparr>user_feeds := (\<lambda>u. if u \<in> fanout_targets env (allFollowers env s a userId)
              then upsert \<lparr>created_at = ts, post_id = p, author_id = a\<rparr> (user_feeds s u)
              else user_feeds s u),
       redis_sets := (\<lambda>k. if k \<in> handler_cache_key ` set (allFollowers env s a userId)
              then [] else redis_sets s k),
       redis_cache := (\<lambda>k. if k \<in> handler_cache_key ` set (allFollowers env s a userId)
              then None else redis_cache s k)\<rparr>"

text \<open>
  The rows a backfill writes for the posts the Post service returns: each keeps the
  post's own \<open>created_at\<close>; \<open>pu\<close> gives the UUID of a post's id.
\<close>

definition backfill_row :: "(post_row \<Rightarrow> 'u) \<Rightarrow> 'u \<Rightarrow> post_row \<Rightarrow> 'u feed_row" where
  "backfill_row pu followingUuid p =
     \<lparr>created_at = p_created_at p, post_id = pu p, author_id = followingUuid\<rparr>"

text \<open>A partition in clustering order: strictly descending \<open>created_at\<close>.\<close>

definition clustered :: "'u feed_row list \<Rightarrow> bool" where
  "clustered xs = sorted_wrt (\<lambda>x y. created_at y < created_at x) xs"

text \<open>
  The text form of a UUID has 36 characters: \<open>Uuid.fromString\<close> rejects any other length
  first, and \<open>toString\<close> prints 32 hex digits and four hyphens.
\<close>

definition uuid_text36 :: "'u env \<Rightarrow> bool" where
  "uuid_text36 env =
     (\<forall>t u. Uuid_fromString env t = Some u \<longrightarrow>
        length t = 36 \<and> length (Uuid_toString env u) = 36)"

text \<open>
  The ids held by the graph stores have that form: the members of the Redis sets, and
  the text of the followers in \<open>user_followers\<close>.
\<close>

definition stored_ids36 :: "'u env \<Rightarrow> 'u state \<Rightarrow> bool" where
  "stored_ids36 env s =
     ((\<forall>k. \<forall>m \<in> set (redis_sets s k). length m = 36) \<and>
      (\<forall>a. \<forall>f \<in> set (user_followers s a). length (Uuid_toString env f) = 36))"

text \<open>The row a hydration request is made for, and its outcome.\<close>

definition resolve :: "'u env \<Rightarrow> 'u feed_row \<Rightarrow> json option" where
  "resolve env item = axios_get_post env (Uuid_toString env (post_id item))"

text \<open>The rows \<open>GET /api/feed\<close> fetches and the slice it keeps.\<close>

definition fetched_rows :: "'u state \<Rightarrow> 'u \<Rightarrow> int \<Rightarrow> int \<Rightarrow> 'u feed_row list" where
  "fetched_rows s userUuid l ofs = take (nat (l + ofs + 1)) (user_feeds s userUuid)"

definition feed_items :: "'u state \<Rightarrow> 'u \<Rightarrow> int \<Rightarrow> int \<Rightarrow> 'u feed_row list" where
  "feed_items s userUuid l ofs = js_slice (fetched_rows s userUuid l ofs) ofs (ofs + l)"

section \<open>A reference environment and example data\<close>

text \<open>
  The examples use UUIDs in canonical lower-case text form, which the driver parses and
  prints back unchanged, time values sent as numbers, and a Post service that answers
  from a given table of posts.
\<close>

definition uuid_class :: "char \<Rightarrow> char" where
  "uuid_class c =
     (if c = CHR ''-'' then CHR ''-''
      else if c \<in> set ''0123456789abcdef'' then CHR ''h'' else CHR ''?'')"

definition canonical_uuid :: "string \<Rightarrow> bool" where
  "canonical_uuid t = (map uuid_class t = ''hhhhhhhh-hhhh-hhhh-hhhh-hhhhhhhhhhhh'')"

definition ref_fromString :: "string \<Rightarrow> string option" where
  "ref_fromString t = (if canonical_uuid t then Some t else None)"

definition ref_Date_time :: "json \<Rightarrow> timestamp option" where
  "ref_Date_time v = (case v of JNum n \<Rightarrow> Some n | _ \<Rightarrow> None)"

definition ref_env :: "post_row list \<Rightarrow> string env" where
  "ref_env tbl =
     \<lparr>Uuid_fromString = ref_fromString,
      Uuid_toString = (\<lambda>u. u),
      Date_time = ref_Date_time,
      axios_get_post = (\<lambda>i. map_option (row_json JNum) (find (\<lambda>p. p_id p = i) tbl)),
      axios_get_user_posts =
        (\<lambda>i. Some (user_posts_body JNum (select_user_posts tbl i None 20)))\<rparr>"

definition empty_state :: "string state" where
  "empty_state =
     \<lparr>user_feeds = (\<lambda>u. []), user_followers = (\<lambda>u. []), user_following = (\<lambda>u. []),
      redis_sets = (\<lambda>k. []), redis_cache = (\<lambda>k. None)\<rparr>"

definition alice :: string where "alice = ''a11ce000-0000-4000-8000-000000000001''"
definition bob :: string where "bob = ''b0b00000-0000-4000-8000-000000000002''"
definition carol :: string where "carol = ''ca401000-0000-4000-8000-000000000003''"
definition post1 :: string where "post1 = ''00000000-0000-4000-8000-0000000000f1''"
definition post2 :: string where "post2 = ''00000000-0000-4000-8000-0000000000f2''"

definition post_created :: "string \<Rightarrow> string \<Rightarrow> timestamp \<Rightarrow> message" where
  "post_created postId userId createdAt =
     \<lparr>routingKey = ''post.created'',
      content = Some (JObj [(''postId'', JStr postId), (''userId'', JStr userId),
                            (''createdAt'', JNum createdAt)])\<rparr>"

definition edge_payload :: "string \<Rightarrow> string \<Rightarrow> json" where
  "edge_payload followerId followingId =
     JObj [(''followerId'', JStr followerId), (''followingId'', JStr followingId)]"

definition alice_post1 :: post_row where
  "alice_post1 = \<lparr>p_id = post1, p_user_id = alice, p_created_at = 100\<rparr>"

definition alice_post2 :: post_row where
  "alice_post2 = \<lparr>p_id = post2, p_user_id = alice, p_created_at = 200\<rparr>"

definition bob_post1 :: post_row where
  "bob_post1 = \<lparr>p_id = post1, p_user_id = bob, p_created_at = 100\<rparr>"

definition bob_post2 :: post_row where
  "bob_post2 = \<lparr>p_id = post2, p_user_id = bob, p_created_at = 200\<rparr>"

text \<open>Alice's partition holds entries for two posts of Bob's.\<close>

definition alice_has_two_rows :: "string state" where
  "alice_has_two_rows =
     empty_state\<lparr>user_feeds := (\<lambda>u. [])(alice :=
       [\<lparr>created_at = 200, post_id = post2, author_id = bob\<rparr>,
        \<lparr>created_at = 100, post_id = post1, author_id = bob\<rparr>])\<rparr>"

text \<open>
  A thousand and one posts of Alice's, published one after the other at the instants
  1, 2, ..., 1001, each with its own id.
\<close>

definition digit4 :: "nat \<Rightarrow> string" where
  "digit4 n = map (\<lambda>k. ''0123456789'' ! (n div k mod 10)) [1000, 100, 10, 1]"

definition post_no :: "nat \<Rightarrow> string" where
  "post_no n = ''00000000-0000-4000-8000-00000000'' @ digit4 n"

definition nth_post_created :: "nat \<Rightarrow> message" where
  "nth_post_created n = post_created (post_no n) alice (int n)"

definition nth_row :: "nat \<Rightarrow> string feed_row" where
  "nth_row n = \<lparr>created_at = int n, post_id = post_no n, author_id = alice\<rparr>"

definition thousand_and_one_posts :: "message list" where
  "thousand_and_one_posts = map nth_post_created [1..<Suc 1001]"

text \<open>Alice has published her first post, which fanned out to her own partition.\<close>

definition alice_published_once :: "string state" where
  "alice_published_once =
     empty_state\<lparr>user_feeds := (\<lambda>u. [])(alice :=
       [\<lparr>created_at = 100, post_id = post1, author_id = alice\<rparr>])\<rparr>"

text \<open>
  Twenty posts of Alice's, created at the instants 1, ..., 20, and one newer post of
  Carol's that is already in Bob's partition.
\<close>

definition twenty_posts :: "post_row list" where
  "twenty_posts =
     map (\<lambda>n. \<lparr>p_id = post_no n, p_user_id = alice, p_created_at = int n\<rparr>)
       [1, 2, 3, 4, 5, 6, 7, 8, 9, 10, 11, 12, 13, 14, 15, 16, 17, 18, 19, 20]"

definition carol_post :: post_row where
  "carol_post = \<lparr>p_id = post1, p_user_id = carol, p_created_at = 5000\<rparr>"

definition bob_sees_carol :: "string state" where
  "bob_sees_carol =
     empty_state\<lparr>user_feeds := (\<lambda>u. [])(bob :=
       [\<lparr>created_at = 5000, post_id = post1, author_id = carol\<rparr>])\<rparr>"

text \<open>Bob follows Alice, in both stores.\<close>

definition bob_follows_alice :: "string state" where
  "bob_follows_alice =
     empty_state\<lparr>user_followers := (\<lambda>u. [])(alice := [bob]),
                 user_following := (\<lambda>u. [])(bob := [alice]),
                 redis_sets := (\<lambda>k. [])(followers_key alice := [bob],
                                        following_key bob := [alice])\<rparr>"

section \<open>Basic facts\<close>

lemmas handler_defs = handleEvent_def dispatch_def handlePostCreated_def handlePostDeleted_def
  handleUserFollowed_def handleUserUnfollowed_def backfill_def allFollowers_def sMembers_def
  js_Set_def fanout_insert_def insert_user_feeds_def insert_user_followers_def
  insert_user_following_def delete_user_followers_def delete_user_following_def
  sAdd_def sRem_def redis_del_def Let_def

lemmas read_defs = get_feed_def redis_get_def setEx_def valid_limit_def js_slice_def
  resolve_def fetched_rows_def feed_items_def Let_def

lemmas ref_defs = ref_env_def ref_Date_time_def empty_state_def post_created_def
  edge_payload_def select_user_posts_def user_posts_body_def row_json_def
  alice_post1_def alice_post2_def bob_post1_def bob_post2_def

lemma ref_ids [simp]:
  "ref_fromString alice = Some alice" "ref_fromString bob = Some bob"
  "ref_fromString carol = Some carol"
  "ref_fromString post1 = Some post1" "ref_fromString post2 = Some post2"
  by (simp_all add: ref_fromString_def canonical_uuid_def uuid_class_def
      alice_def bob_def carol_def post1_def post2_def)

lemma ids_distinct [simp]:
  "alice \<noteq> bob" "bob \<noteq> alice" "alice \<noteq> carol" "carol \<noteq> alice"
  "bob \<noteq> carol" "carol \<noteq> bob" "post1 \<noteq> post2" "post2 \<noteq> post1"
  by (simp_all add: alice_def bob_def carol_def post1_def post2_def)

lemma keys_differ [simp]:
  "followers_key x \<noteq> handler_cache_key y"
  "following_key x \<noteq> handler_cache_key y"
  "followers_key x \<noteq> following_key y"
  "following_key x \<noteq> followers_key y"
  by (simp_all add: followers_key_def following_key_def handler_cache_key_def)

lemma key_inj [simp]:
  "(followers_key x = followers_key y) = (x = y)"
  "(following_key x = following_key y) = (x = y)"
  by (simp_all add: followers_key_def following_key_def)

lemma fanout_targets_char:
  "fanout_targets env ids = {u. \<exists>f \<in> set ids. Uuid_fromString env f = Some u}"
  by (induction ids) (auto simp: fanout_targets_def split: option.splits)

lemma upsert_idem: "upsert r (upsert r xs) = upsert r xs"
  by (induction xs) auto

lemma upsert_mem: "r \<in> set (upsert r xs)"
  by (induction xs) auto

lemma set_js_Set [simp]: "set (js_Set xs) = set xs"
  by (simp add: js_Set_def)

lemma hydrate_map_filter: "hydrate env items acc = acc @ List.map_filter (resolve env) items"
  by (induction items arbitrary: acc)
     (auto simp: resolve_def split: option.splits)

section \<open>Acknowledgement of consumed messages\<close>

text \<open>
  C8, as the code has it. A payload that \<open>JSON.parse\<close> rejects throws inside the \<open>try\<close> of
  \<open>handleEvent\<close>, so the message is negatively acknowledged and requeued, not dropped.
\<close>

theorem malformed_payload_is_requeued:
  "fst (handleEvent (ref_env []) empty_state \<lparr>routingKey = ''post.created'', content = None\<rparr>)
     = Nack_requeue"
  by (simp add: handleEvent_def)

text \<open>
  C8, amended. A message whose payload does not parse is negatively acknowledged with
  requeue and the state is left as it was; a message is acknowledged exactly when its
  payload parses and the handler it is dispatched to returns without throwing.
\<close>

theorem ack_iff_parsed_and_returned:
  "(content msg = None \<longrightarrow> handleEvent env s msg = (Nack_requeue, s)) \<and>
   (fst (handleEvent env s msg) = Ack \<longleftrightarrow>
      (\<exists>data s'. content msg = Some data \<and> dispatch env s (routingKey msg) data = Inr s'))"
  by (auto simp: handleEvent_def split: option.splits sum.splits)

theorem ack_iff_parsed_and_returned_witness:
  "content \<lparr>routingKey = ''user.followed'', content = None\<rparr> = None \<and>
   handleEvent (ref_env []) empty_state \<lparr>routingKey = ''user.followed'', content = None\<rparr>
     = (Nack_requeue, empty_state)"
  using ack_iff_parsed_and_returned
          [of "\<lparr>routingKey = ''user.followed'', content = None\<rparr>" "ref_env []" empty_state]
  by simp

section \<open>Unfollowing\<close>

text \<open>
  C9. For an \<open>edge.removed\<close> event whose two ids are UUIDs, \<open>handleUserUnfollowed\<close>
  removes the follower from the followee's \<open>user_followers\<close> partition and the followee
  from the follower's \<open>user_following\<close> partition (and both from the Redis sets), the
  message is acknowledged, and every partition of \<open>user_feeds\<close> is as before.
\<close>

theorem unfollow_removes_edge_keeps_feed:
  assumes "js_prop data ''followerId'' = Some (JStr followerId)"
    and "js_prop data ''followingId'' = Some (JStr followingId)"
    and "Uuid_fromString env followerId = Some fu"
    and "Uuid_fromString env followingId = Some gu"
  shows "\<exists>s'. handleEvent env s \<lparr>routingKey = ''user.unfollowed'', content = Some data\<rparr>
                 = (Ack, s') \<and>
           set (user_followers s' gu) = set (user_followers s gu) - {fu} \<and>
           set (user_following s' fu) = set (user_following s fu) - {gu} \<and>
           followerId \<notin> set (redis_sets s' (followers_key followingId)) \<and>
           followingId \<notin> set (redis_sets s' (following_key followerId)) \<and>
           user_feeds s' = user_feeds s"
proof -
  from assms(1) have "data \<noteq> JNull" by auto
  with assms show ?thesis
    by (auto simp: handler_defs)
qed

theorem unfollow_removes_edge_keeps_feed_witness:
  "js_prop (edge_payload bob alice) ''followerId'' = Some (JStr bob) \<and>
   js_prop (edge_payload bob alice) ''followingId'' = Some (JStr alice) \<and>
   Uuid_fromString (ref_env []) bob = Some bob \<and>
   Uuid_fromString (ref_env []) alice = Some alice \<and>
   (\<exists>s'. handleEvent (ref_env []) bob_follows_alice
            \<lparr>routingKey = ''user.unfollowed'', content = Some (edge_payload bob alice)\<rparr>
              = (Ack, s') \<and>
        set (user_followers s' alice) = set (user_followers bob_follows_alice alice) - {bob} \<and>
        set (user_following s' bob) = set (user_following bob_follows_alice bob) - {alice} \<and>
        bob \<notin> set (redis_sets s' (followers_key alice)) \<and>
        alice \<notin> set (redis_sets s' (following_key bob)) \<and>
        user_feeds s' = user_feeds bob_follows_alice)"
  using unfollow_removes_edge_keeps_feed
          [of "edge_payload bob alice" bob alice "ref_env []" bob alice bob_follows_alice]
  by (simp add: edge_payload_def ref_env_def)

section \<open>Reading a page\<close>

lemma get_feed_miss:
  assumes "redis_get now s (page_cache_key userId (Some ofs) (Some l)) = None"
    and "Uuid_fromString env userId = Some u"
    and "valid_limit (l + ofs + 1)"
  shows "get_feed env now s userId (Some l) (Some ofs) =
     (if feed_items s u l ofs = [] then (Json \<lparr>posts = [], hasMore = False, offset = None\<rparr>, s)
      else
        let pg = \<lparr>posts = List.map_filter (resolve env) (feed_items s u l ofs),
                  hasMore = (ofs + l < int (length (fetched_rows s u l ofs))),
                  offset = Some (ofs + int (length (List.map_filter (resolve env) (feed_items s u l ofs))))\<rparr>
        in (Json pg, setEx now (page_cache_key userId (Some ofs) (Some l)) 120 pg s))"
  using assms
  by (simp add: get_feed_def Let_def hydrate_map_filter feed_items_def fetched_rows_def)

lemma map_filter_drop_unresolved:
  "\<forall>x \<in> set xs. \<not> P x \<longrightarrow> f x = None \<Longrightarrow>
     List.map_filter f (filter P xs) = List.map_filter f xs"
  by (induction xs) (auto split: option.splits)

lemma map_filter_all_None:
  "\<forall>x \<in> set xs. f x = None \<Longrightarrow> List.map_filter f xs = []"
  by (induction xs) auto

lemma post_deleted_frame:
  "snd (handleEvent env s \<lparr>routingKey = ''post.deleted'', content = c\<rparr>) = s"
  by (auto simp: handleEvent_def dispatch_def handlePostDeleted_def split: option.splits sum.splits)

text \<open>
  C7. Handling \<open>post.deleted\<close> leaves the whole state, and with it every partition of
  \<open>user_feeds\<close>, as it was. A page assembled on a cache miss holds, in order, the posts
  of the slice that resolve: an entry whose post does not resolve is skipped and the rest
  of the page is still assembled. So the page is the one the slice without the entries
  of a post \<open>p\<close> would give, as soon as \<open>p\<close> no longer resolves.
\<close>

theorem retraction_is_filtered_at_read:
  "snd (handleEvent env s \<lparr>routingKey = ''post.deleted'', content = c\<rparr>) = s \<and>
   (redis_get now s (page_cache_key userId (Some ofs) (Some l)) = None \<longrightarrow>
    Uuid_fromString env userId = Some u \<longrightarrow> valid_limit (l + ofs + 1) \<longrightarrow>
      (\<exists>pg. fst (get_feed env now s userId (Some l) (Some ofs)) = Json pg \<and>
            posts pg = List.map_filter (resolve env) (feed_items s u l ofs) \<and>
            (\<forall>p. axios_get_post env (Uuid_toString env p) = None \<longrightarrow>
                 posts pg = List.map_filter (resolve env)
                              (filter (\<lambda>r. post_id r \<noteq> p) (feed_items s u l ofs)))))"
proof (intro conjI impI)
  show "snd (handleEvent env s \<lparr>routingKey = ''post.deleted'', content = c\<rparr>) = s"
    by (rule post_deleted_frame)
next
  assume h: "redis_get now s (page_cache_key userId (Some ofs) (Some l)) = None"
    "Uuid_fromString env userId = Some u" "valid_limit (l + ofs + 1)"
  have drop: "List.map_filter (resolve env) (filter (\<lambda>r. post_id r \<noteq> p) xs) =
              List.map_filter (resolve env) xs"
    if "axios_get_post env (Uuid_toString env p) = None" for p and xs :: "'a feed_row list"
    using that by (intro map_filter_drop_unresolved) (auto simp: resolve_def)
  show "\<exists>pg. fst (get_feed env now s userId (Some l) (Some ofs)) = Json pg \<and>
            posts pg = List.map_filter (resolve env) (feed_items s u l ofs) \<and>
            (\<forall>p. axios_get_post env (Uuid_toString env p) = None \<longrightarrow>
                 posts pg = List.map_filter (resolve env)
                              (filter (\<lambda>r. post_id r \<noteq> p) (feed_items s u l ofs)))"
    by (simp add: get_feed_miss [OF h] Let_def drop)
qed

theorem retraction_is_filtered_at_read_witness:
  "snd (handleEvent (ref_env [bob_post2]) alice_has_two_rows
          \<lparr>routingKey = ''post.deleted'',
           content = Some (JObj [(''postId'', JStr post1), (''userId'', JStr bob)])\<rparr>)
     = alice_has_two_rows \<and>
   redis_get 0 alice_has_two_rows (page_cache_key alice (Some 0) (Some 10)) = None \<and>
   Uuid_fromString (ref_env [bob_post2]) alice = Some alice \<and>
   valid_limit (10 + 0 + 1) \<and>
   axios_get_post (ref_env [bob_post2]) (Uuid_toString (ref_env [bob_post2]) post1) = None \<and>
   (\<exists>pg. fst (get_feed (ref_env [bob_post2]) 0 alice_has_two_rows alice (Some 10) (Some 0)) = Json pg \<and>
         posts pg = [row_json JNum bob_post2])"
  using retraction_is_filtered_at_read
     [of "ref_env [bob_post2]" alice_has_two_rows
         "Some (JObj [(''postId'', JStr post1), (''userId'', JStr bob)])"
         0 alice 0 10 alice]
  by (simp add: read_defs ref_defs alice_has_two_rows_def)

text \<open>
  C10. On a cache miss with a non-empty slice, \<open>hasMore\<close> compares the number of rows
  fetched with \<open>offset + limit\<close>, before hydration, and the returned offset is the
  request offset plus the number of posts that resolved. When no post of the slice
  resolves the page is \<open>posts: []\<close> with that \<open>hasMore\<close> and the request offset; the
  witness is a state where this gives \<open>hasMore: true\<close> and an offset 0 after one raw
  entry was consumed.
\<close>

theorem hasMore_counts_raw_rows:
  assumes "redis_get now s (page_cache_key userId (Some ofs) (Some l)) = None"
    and "Uuid_fromString env userId = Some u"
    and "valid_limit (l + ofs + 1)"
    and "feed_items s u l ofs \<noteq> []"
  shows "fst (get_feed env now s userId (Some l) (Some ofs)) =
           Json \<lparr>posts = List.map_filter (resolve env) (feed_items s u l ofs),
                 hasMore = (ofs + l < int (length (fetched_rows s u l ofs))),
                 offset = Some (ofs + int (length (List.map_filter (resolve env) (feed_items s u l ofs))))\<rparr>
         \<and> ((\<forall>r \<in> set (feed_items s u l ofs). resolve env r = None) \<longrightarrow>
              fst (get_feed env now s userId (Some l) (Some ofs)) =
                Json \<lparr>posts = [], hasMore = (ofs + l < int (length (fetched_rows s u l ofs))),
                      offset = Some ofs\<rparr>)"
  using assms(4)
  by (auto simp add: get_feed_miss [OF assms(1-3)] Let_def map_filter_all_None)

theorem hasMore_counts_raw_rows_witness:
  "redis_get 0 alice_has_two_rows (page_cache_key alice (Some 0) (Some 1)) = None \<and>
   Uuid_fromString (ref_env []) alice = Some alice \<and>
   valid_limit (1 + 0 + 1) \<and>
   feed_items alice_has_two_rows alice 1 0 =
     [\<lparr>created_at = 200, post_id = post2, author_id = bob\<rparr>] \<and>
   resolve (ref_env []) \<lparr>created_at = 200, post_id = post2, author_id = bob\<rparr> = None \<and>
   fst (get_feed (ref_env []) 0 alice_has_two_rows alice (Some 1) (Some 0)) =
     Json \<lparr>posts = [], hasMore = True, offset = Some 0\<rparr>"
  using hasMore_counts_raw_rows [of 0 alice_has_two_rows alice 0 1 "ref_env []" alice]
  by (simp add: read_defs ref_defs alice_has_two_rows_def)

section \<open>Fan-out on publish\<close>

lemma fanout_targets_Cons:
  "fanout_targets env (f # fs) =
     (case Uuid_fromString env f of None \<Rightarrow> {} | Some u \<Rightarrow> {u}) \<union> fanout_targets env fs"
  by (auto simp: fanout_targets_char split: option.splits)

lemma fanout_targets_append:
  "fanout_targets env (xs @ ys) = fanout_targets env xs \<union> fanout_targets env ys"
  by (auto simp: fanout_targets_char)

lemma fanout_targets_js_Set [simp]:
  "fanout_targets env (js_Set xs) = fanout_targets env xs"
  by (simp add: fanout_targets_char)

lemma fold_fanout_state:
  "fold (fanout_insert env ts p a) ids s =
     s\<lparr>user_feeds := (\<lambda>u. if u \<in> fanout_targets env ids
          then upsert \<lparr>created_at = ts, post_id = p, author_id = a\<rparr> (user_feeds s u)
          else user_feeds s u)\<rparr>"
proof (induction ids arbitrary: s)
  case Nil
  show ?case by (simp add: fanout_targets_char)
next
  case (Cons f fs)
  show ?case
  proof (cases "Uuid_fromString env f")
    case None
    then have "fanout_insert env ts p a f s = s"
      by (simp add: fanout_insert_def)
    with None show ?thesis
      by (simp add: Cons.IH fanout_targets_Cons)
  next
    case (Some u)
    then have step: "fanout_insert env ts p a f s =
        insert_user_feeds u \<lparr>created_at = ts, post_id = p, author_id = a\<rparr> s"
      by (simp add: fanout_insert_def)
    show ?thesis
      by (simp add: step Cons.IH fanout_targets_Cons Some insert_user_feeds_def
          fun_eq_iff upsert_idem)
  qed
qed

lemma fold_del_state:
  "fold (\<lambda>f. redis_del (handler_cache_key f)) ids s =
     s\<lparr>redis_sets := (\<lambda>k. if k \<in> handler_cache_key ` set ids then [] else redis_sets s k),
       redis_cache := (\<lambda>k. if k \<in> handler_cache_key ` set ids then None else redis_cache s k)\<rparr>"
proof (induction ids arbitrary: s)
  case Nil
  show ?case by simp
next
  case (Cons f fs)
  have "fold (\<lambda>f. redis_del (handler_cache_key f)) (f # fs) s =
        fold (\<lambda>f. redis_del (handler_cache_key f)) fs (redis_del (handler_cache_key f) s)"
    by simp
  also have "\<dots> = s\<lparr>redis_sets := (\<lambda>k. if k \<in> handler_cache_key ` set (f # fs) then [] else redis_sets s k),
       redis_cache := (\<lambda>k. if k \<in> handler_cache_key ` set (f # fs) then None else redis_cache s k)\<rparr>"
    unfolding Cons.IH by (simp add: redis_del_def fun_eq_iff)
  finally show ?case .
qed

lemma handlePostCreated_cases:
  "handlePostCreated env s data = Inr s' \<Longrightarrow>
     \<exists>p userId a ts. uuid_of env (js_prop data ''postId'') = Some p \<and>
        js_prop data ''userId'' = Some (JStr userId) \<and> Uuid_fromString env userId = Some a \<and>
        new_Date env (js_prop data ''createdAt'') = Some ts"
  by (auto simp: handlePostCreated_def Let_def split: if_splits option.splits json.splits)

lemma handlePostCreated_state:
  assumes "uuid_of env (js_prop data ''postId'') = Some p"
    and "js_prop data ''userId'' = Some (JStr userId)"
    and "Uuid_fromString env userId = Some a"
    and "new_Date env (js_prop data ''createdAt'') = Some ts"
  shows "handlePostCreated env s data = Inr (published env s p a userId ts)"
proof -
  from assms(2) have "data \<noteq> JNull" by auto
  with assms show ?thesis
    by (simp add: handlePostCreated_def Let_def fold_fanout_state fold_del_state published_def
        cong: if_cong)
qed

lemma allFollowers_published:
  "allFollowers env (published env s p a userId ts) b userId' = allFollowers env s b userId'"
proof -
  have "followers_key userId' \<notin> handler_cache_key ` X" for X
    by auto
  then show ?thesis
    by (simp add: published_def allFollowers_def sMembers_def)
qed

lemma published_idem:
  "published env (published env s p a userId ts) p a userId ts = published env s p a userId ts"
  unfolding published_def [of env "published env s p a userId ts"] allFollowers_published
  by (simp add: published_def fun_eq_iff upsert_idem cong: if_cong)

lemma handlePostCreated_idem:
  assumes "handlePostCreated env s data = Inr s'"
  shows "handlePostCreated env s' data = Inr s'"
proof -
  from handlePostCreated_cases [OF assms] obtain p userId a ts where
    h: "uuid_of env (js_prop data ''postId'') = Some p"
       "js_prop data ''userId'' = Some (JStr userId)" "Uuid_fromString env userId = Some a"
       "new_Date env (js_prop data ''createdAt'') = Some ts"
    by blast
  note st = handlePostCreated_state [OF h]
  from assms st [of s] have "s' = published env s p a userId ts"
    by simp
  then show ?thesis
    by (simp add: st published_idem)
qed

lemma set_upsert_subset: "set (upsert r xs) \<subseteq> insert r (set xs)"
  by (induction xs) auto

lemma clustered_upsert: "clustered xs \<Longrightarrow> clustered (upsert r xs)"
proof (induction xs)
  case Nil
  show ?case by (simp add: clustered_def)
next
  case (Cons x xs)
  then have tl: "clustered (upsert r xs)" and below: "\<forall>y \<in> set xs. created_at y < created_at x"
    by (auto simp: clustered_def)
  have "\<forall>y \<in> set (upsert r xs). created_at y < created_at x"
    if "created_at r < created_at x"
    using that below set_upsert_subset [of r xs] by auto
  with Cons.prems tl show ?case
    by (auto simp: clustered_def)
qed

lemma clustered_one_per_key:
  "clustered xs \<Longrightarrow> length (filter (\<lambda>r. created_at r = t) xs) \<le> 1"
proof (induction xs)
  case Nil
  then show ?case by simp
next
  case (Cons x xs)
  then have tl: "clustered xs" and below: "\<forall>y \<in> set xs. created_at y < created_at x"
    by (auto simp: clustered_def)
  show ?case
  proof (cases "created_at x = t")
    case True
    with below have "filter (\<lambda>r. created_at r = t) xs = []"
      by (auto simp: filter_empty_conv)
    with True show ?thesis by simp
  next
    case False
    with Cons.IH [OF tl] show ?thesis by simp
  qed
qed

lemma post_created_clustered:
  assumes "clustered (user_feeds s u)"
  shows "clustered (user_feeds (snd (handleEvent env s \<lparr>routingKey = ''post.created'', content = c\<rparr>)) u)"
proof (cases c)
  case None
  with assms show ?thesis by (simp add: handleEvent_def)
next
  case (Some data)
  show ?thesis
  proof (cases "handlePostCreated env s data")
    case (Inl e)
    with Some assms show ?thesis by (simp add: handleEvent_def dispatch_def)
  next
    case (Inr s')
    from handlePostCreated_cases [OF Inr] obtain p userId a ts where
      h: "uuid_of env (js_prop data ''postId'') = Some p"
       "js_prop data ''userId'' = Some (JStr userId)" "Uuid_fromString env userId = Some a"
       "new_Date env (js_prop data ''createdAt'') = Some ts"
      by blast
    from Inr handlePostCreated_state [OF h, of s] have "s' = published env s p a userId ts"
      by simp
    with Some Inr assms show ?thesis
      by (simp add: handleEvent_def dispatch_def published_def clustered_upsert)
  qed
qed

text \<open>
  C4. Handling the same \<open>post.created\<close> message a second time leaves the state the first
  handling produced: the second insert overwrites the row with the same owner and
  \<open>created_at\<close>. A partition that was in clustering order holds, after both deliveries,
  at most one row for any \<open>created_at\<close>.
\<close>

theorem duplicate_delivery_is_idempotent:
  assumes "routingKey msg = ''post.created''"
  shows "snd (handleEvent env (snd (handleEvent env s msg)) msg) = snd (handleEvent env s msg) \<and>
         (\<forall>u t. clustered (user_feeds s u) \<longrightarrow>
            length (filter (\<lambda>r. created_at r = t)
                     (user_feeds (snd (handleEvent env (snd (handleEvent env s msg)) msg)) u)) \<le> 1)"
proof
  show twice: "snd (handleEvent env (snd (handleEvent env s msg)) msg) = snd (handleEvent env s msg)"
  proof (cases "content msg")
    case None
    then show ?thesis by (simp add: handleEvent_def)
  next
    case (Some data)
    show ?thesis
    proof (cases "handlePostCreated env s data")
      case (Inl e)
      with Some assms show ?thesis by (simp add: handleEvent_def dispatch_def)
    next
      case (Inr s')
      with Some assms handlePostCreated_idem [OF Inr] show ?thesis
        by (simp add: handleEvent_def dispatch_def)
    qed
  qed
  have msg: "msg = \<lparr>routingKey = ''post.created'', content = content msg\<rparr>"
    using assms by simp
  show "\<forall>u t. clustered (user_feeds s u) \<longrightarrow>
            length (filter (\<lambda>r. created_at r = t)
                     (user_feeds (snd (handleEvent env (snd (handleEvent env s msg)) msg)) u)) \<le> 1"
    unfolding twice
  proof (intro allI impI)
    fix u t
    assume "clustered (user_feeds s u)"
    then have "clustered (user_feeds (snd (handleEvent env s msg)) u)"
      using post_created_clustered [of s u env "content msg"] msg by simp
    then show "length (filter (\<lambda>r. created_at r = t) (user_feeds (snd (handleEvent env s msg)) u)) \<le> 1"
      by (rule clustered_one_per_key)
  qed
qed

theorem duplicate_delivery_is_idempotent_witness:
  "routingKey (post_created post1 alice 100) = ''post.created'' \<and>
   snd (handleEvent (ref_env []) (snd (handleEvent (ref_env []) bob_follows_alice
          (post_created post1 alice 100))) (post_created post1 alice 100))
     = snd (handleEvent (ref_env []) bob_follows_alice (post_created post1 alice 100)) \<and>
   clustered (user_feeds bob_follows_alice bob) \<and>
   length (filter (\<lambda>r. created_at r = 100)
      (user_feeds (snd (handleEvent (ref_env []) (snd (handleEvent (ref_env []) bob_follows_alice
          (post_created post1 alice 100))) (post_created post1 alice 100))) bob)) \<le> 1 \<and>
   user_feeds (snd (handleEvent (ref_env []) bob_follows_alice (post_created post1 alice 100))) bob
     = [\<lparr>created_at = 100, post_id = post1, author_id = alice\<rparr>]"
proof -
  let ?m = "post_created post1 alice 100"
  have rk: "routingKey ?m = ''post.created''"
    by (simp add: post_created_def)
  note th = duplicate_delivery_is_idempotent [OF rk, of "ref_env []" bob_follows_alice]
  have cl: "clustered (user_feeds bob_follows_alice bob)"
    by (simp add: clustered_def bob_follows_alice_def empty_state_def)
  have row: "user_feeds (snd (handleEvent (ref_env []) bob_follows_alice ?m)) bob
     = [\<lparr>created_at = 100, post_id = post1, author_id = alice\<rparr>]"
    by (simp add: handler_defs ref_defs bob_follows_alice_def)
  from th cl rk row show ?thesis
    by blast
qed

lemma fanout_targets_roundtrip:
  "\<forall>f \<in> set fs. Uuid_fromString env (Uuid_toString env f) = Some f \<Longrightarrow>
     fanout_targets env (map (Uuid_toString env) fs) = set fs"
  by (auto simp: fanout_targets_char)

lemma fanout_targets_allFollowers:
  assumes "Uuid_fromString env userId = Some a"
    and "\<forall>f \<in> set (user_followers s a). Uuid_fromString env (Uuid_toString env f) = Some f"
  shows "fanout_targets env (allFollowers env s a userId) = followers_of env s a userId \<union> {a}"
  using assms
  by (simp add: allFollowers_def followers_of_def sMembers_def fanout_targets_append
      fanout_targets_roundtrip fanout_targets_Cons) (simp add: fanout_targets_char)

text \<open>
  C1. For a \<open>post.created\<close> event whose \<open>postId\<close> and \<open>userId\<close> are UUIDs and whose
  \<open>createdAt\<close> is a valid date, the handler completes and the message is acknowledged;
  afterwards every follower of the author at dispatch time, and the author, has the row
  (created_at = createdAt, post_id = postId, author_id = authorId) in its partition of
  \<open>user_feeds\<close>, and the partition of every other user is unchanged. The followers
  stored in \<open>user_followers\<close> are UUID values, which the driver prints and parses back.
\<close>

theorem fanout_reaches_followers_and_author:
  assumes "uuid_of env (js_prop data ''postId'') = Some p"
    and "js_prop data ''userId'' = Some (JStr userId)"
    and "Uuid_fromString env userId = Some a"
    and "new_Date env (js_prop data ''createdAt'') = Some ts"
    and "\<forall>f \<in> set (user_followers s a). Uuid_fromString env (Uuid_toString env f) = Some f"
  shows "\<exists>s'. handleEvent env s \<lparr>routingKey = ''post.created'', content = Some data\<rparr> = (Ack, s') \<and>
     (\<forall>u \<in> followers_of env s a userId \<union> {a}.
         \<lparr>created_at = ts, post_id = p, author_id = a\<rparr> \<in> set (user_feeds s' u)) \<and>
     (\<forall>u. u \<notin> followers_of env s a userId \<union> {a} \<longrightarrow> user_feeds s' u = user_feeds s u)"
proof -
  have ev: "handleEvent env s \<lparr>routingKey = ''post.created'', content = Some data\<rparr>
              = (Ack, published env s p a userId ts)"
    by (simp add: handleEvent_def dispatch_def handlePostCreated_state [OF assms(1-4)])
  have tg: "fanout_targets env (allFollowers env s a userId) = followers_of env s a userId \<union> {a}"
    by (rule fanout_targets_allFollowers [OF assms(3) assms(5)])
  show ?thesis
    unfolding ev
    by (rule exI [of _ "published env s p a userId ts"])
       (simp add: published_def tg upsert_mem)
qed

theorem fanout_reaches_followers_and_author_witness:
  "uuid_of (ref_env []) (js_prop (JObj [(''postId'', JStr post1), (''userId'', JStr alice),
        (''createdAt'', JNum 100)]) ''postId'') = Some post1 \<and>
   Uuid_fromString (ref_env []) alice = Some alice \<and>
   user_followers bob_follows_alice alice = [bob] \<and>
   Uuid_fromString (ref_env []) (Uuid_toString (ref_env []) bob) = Some bob \<and>
   (\<exists>s'. handleEvent (ref_env []) bob_follows_alice (post_created post1 alice 100) = (Ack, s') \<and>
      \<lparr>created_at = 100, post_id = post1, author_id = alice\<rparr> \<in> set (user_feeds s' bob) \<and>
      \<lparr>created_at = 100, post_id = post1, author_id = alice\<rparr> \<in> set (user_feeds s' alice) \<and>
      user_feeds s' carol = user_feeds bob_follows_alice carol)"
proof -
  let ?data = "JObj [(''postId'', JStr post1), (''userId'', JStr alice), (''createdAt'', JNum 100)]"
  have h: "uuid_of (ref_env []) (js_prop ?data ''postId'') = Some post1"
    "js_prop ?data ''userId'' = Some (JStr alice)"
    "Uuid_fromString (ref_env []) alice = Some alice"
    "new_Date (ref_env []) (js_prop ?data ''createdAt'') = Some 100"
    "\<forall>f \<in> set (user_followers bob_follows_alice alice).
        Uuid_fromString (ref_env []) (Uuid_toString (ref_env []) f) = Some f"
    by (simp_all add: ref_defs bob_follows_alice_def)
  have fo: "followers_of (ref_env []) bob_follows_alice alice alice = {bob}"
    by (auto simp: followers_of_def fanout_targets_char ref_defs bob_follows_alice_def)
  from fanout_reaches_followers_and_author [OF h] obtain s' where
    s': "handleEvent (ref_env []) bob_follows_alice
           \<lparr>routingKey = ''post.created'', content = Some ?data\<rparr> = (Ack, s')"
      "\<forall>u \<in> followers_of (ref_env []) bob_follows_alice alice alice \<union> {alice}.
         \<lparr>created_at = 100, post_id = post1, author_id = alice\<rparr> \<in> set (user_feeds s' u)"
      "\<forall>u. u \<notin> followers_of (ref_env []) bob_follows_alice alice alice \<union> {alice} \<longrightarrow>
            user_feeds s' u = user_feeds bob_follows_alice u"
    by blast
  from s'(2,3) have "\<lparr>created_at = 100, post_id = post1, author_id = alice\<rparr> \<in> set (user_feeds s' bob)"
    "\<lparr>created_at = 100, post_id = post1, author_id = alice\<rparr> \<in> set (user_feeds s' alice)"
    "user_feeds s' carol = user_feeds bob_follows_alice carol"
    by (simp_all add: fo)
  with s'(1) h show ?thesis
    by (auto simp: post_created_def bob_follows_alice_def empty_state_def ref_defs)
qed

section \<open>Retention\<close>

lemma digit_class: "k < 10 \<Longrightarrow> uuid_class (''0123456789'' ! k) = CHR ''h''"
proof -
  assume "k < 10"
  then have "k \<in> {0, 1, 2, 3, 4, 5, 6, 7, 8, 9}" by auto
  then show ?thesis
    by (auto simp: uuid_class_def)
qed

lemma post_no_canonical [simp]: "ref_fromString (post_no n) = Some (post_no n)"
  by (simp add: ref_fromString_def canonical_uuid_def post_no_def digit4_def digit_class)
     (simp add: uuid_class_def)

lemma upsert_newest: "\<forall>x \<in> set xs. created_at x < created_at r \<Longrightarrow> upsert r xs = r # xs"
  by (cases xs) auto

lemma run_events_snoc:
  "run_events env s (msgs @ [m]) = snd (handleEvent env (run_events env s msgs) m)"
  by (simp add: run_events_def)

lemma allFollowers_alone:
  "user_followers s a = [] \<Longrightarrow> redis_sets s (followers_key userId) = [] \<Longrightarrow>
     allFollowers env s a userId = [userId]"
  by (simp add: allFollowers_def sMembers_def js_Set_def)

lemma publish_in_sequence:
  "run_events (ref_env []) empty_state (map nth_post_created [1..<Suc n]) =
     empty_state\<lparr>user_feeds := (\<lambda>u. [])(alice := map nth_row (rev [1..<Suc n]))\<rparr>"
proof (induction n)
  case 0
  show ?case by (simp add: run_events_def empty_state_def fun_eq_iff)
next
  case (Suc n)
  define rows where "rows = map nth_row (rev [1..<Suc n])"
  define s where "s = empty_state\<lparr>user_feeds := (\<lambda>u. [])(alice := rows)\<rparr>"
  define t where "t = int (Suc n)"
  define pid where "pid = post_no (Suc n)"
  define data where
    "data = JObj [(''postId'', JStr pid), (''userId'', JStr alice), (''createdAt'', JNum t)]"
  have msg: "nth_post_created (Suc n) = \<lparr>routingKey = ''post.created'', content = Some data\<rparr>"
    unfolding nth_post_created_def post_created_def data_def t_def pid_def by (rule refl)
  have h: "uuid_of (ref_env []) (js_prop data ''postId'') = Some pid"
    "js_prop data ''userId'' = Some (JStr alice)"
    "Uuid_fromString (ref_env []) alice = Some alice"
    "new_Date (ref_env []) (js_prop data ''createdAt'') = Some t"
    by (simp_all add: ref_env_def ref_Date_time_def data_def pid_def)
  have ev: "snd (handleEvent (ref_env []) s (nth_post_created (Suc n)))
              = published (ref_env []) s pid alice alice t"
    by (simp add: msg handleEvent_def dispatch_def handlePostCreated_state [OF h])
  have al: "allFollowers (ref_env []) s alice alice = [alice]"
    by (rule allFollowers_alone) (simp_all add: s_def empty_state_def)
  have tg: "fanout_targets (ref_env []) [alice] = {alice}"
    by (simp add: fanout_targets_char ref_env_def)
  have row: "\<lparr>created_at = t, post_id = pid, author_id = alice\<rparr> = nth_row (Suc n)"
    by (simp add: nth_row_def t_def pid_def)
  have "\<forall>x \<in> set rows. created_at x < created_at (nth_row (Suc n))"
    by (auto simp: rows_def nth_row_def)
  then have up: "upsert (nth_row (Suc n)) rows = nth_row (Suc n) # rows"
    by (rule upsert_newest)
  have pub: "published (ref_env []) s pid alice alice t =
          empty_state\<lparr>user_feeds := (\<lambda>u. [])(alice := nth_row (Suc n) # rows)\<rparr>"
    unfolding published_def al tg row
    by (simp add: s_def empty_state_def fun_eq_iff up)
  have next_rows: "map nth_row (rev [1..<Suc (Suc n)]) = nth_row (Suc n) # rows"
    by (simp add: rows_def)
  have split: "map nth_post_created [1..<Suc (Suc n)]
                 = map nth_post_created [1..<Suc n] @ [nth_post_created (Suc n)]"
    by simp
  have "run_events (ref_env []) empty_state (map nth_post_created [1..<Suc (Suc n)])
          = snd (handleEvent (ref_env []) s (nth_post_created (Suc n)))"
    unfolding split run_events_snoc Suc.IH s_def rows_def by (rule refl)
  also have "\<dots> = empty_state\<lparr>user_feeds := (\<lambda>u. [])(alice := map nth_row (rev [1..<Suc (Suc n)]))\<rparr>"
    unfolding ev pub next_rows by (rule refl)
  finally show ?case .
qed

text \<open>
  C2, evaluated on the code. After a thousand and one fan-outs to Alice's own partition,
  the partition holds a thousand and one rows, the oldest among them: nothing trims
  \<open>user_feeds\<close>.
\<close>

theorem retention_is_not_enforced:
  "length (user_feeds (run_events (ref_env []) empty_state thousand_and_one_posts) alice) = 1001 \<and>
   nth_row 1 \<in> set (user_feeds (run_events (ref_env []) empty_state thousand_and_one_posts) alice)"
proof -
  have len: "length (map nth_row (rev [1..<Suc n])) = n" for n
    by simp
  have mem: "nth_row 1 \<in> set (map nth_row (rev [1..<Suc n]))" if "1 \<le> n" for n
  proof -
    from that have "1 \<in> set (rev [1..<Suc n])" by auto
    then show ?thesis by (simp only: set_map) (rule imageI)
  qed
  have sel: "user_feeds (empty_state\<lparr>user_feeds := (\<lambda>u. [])(alice := rs)\<rparr>) alice = rs" for rs
    by simp
  have "1 \<le> (1001::nat)" by simp
  from mem [OF this] len [of 1001] show ?thesis
    unfolding thousand_and_one_posts_def publish_in_sequence sel
    by (rule conjI [rotated])
qed

section \<open>Cached pages\<close>

lemma handler_key_is_no_page_key:
  "length followerId = 36 \<Longrightarrow> length userId = 36 \<Longrightarrow>
     handler_cache_key followerId \<noteq> page_cache_key userId ofs l"
proof
  assume len: "length followerId = 36" "length userId = 36"
    and eq: "handler_cache_key followerId = page_cache_key userId ofs l"
  from eq have "length (handler_cache_key followerId) = length (page_cache_key userId ofs l)"
    by simp
  with len show False
    by (simp add: handler_cache_key_def page_cache_key_def)
qed

lemma backfill_loop_frame:
  "redis_cache (snd (backfill_loop env fu gu ps s)) = redis_cache s \<and>
   redis_sets (snd (backfill_loop env fu gu ps s)) = redis_sets s \<and>
   user_followers (snd (backfill_loop env fu gu ps s)) = user_followers s \<and>
   user_following (snd (backfill_loop env fu gu ps s)) = user_following s"
  by (induction ps arbitrary: s)
     (auto simp: insert_user_feeds_def Let_def split: option.splits)

lemma backfill_frame:
  "user_followers (backfill env f fu g gu s) = user_followers s \<and>
   user_following (backfill env f fu g gu s) = user_following s \<and>
   (\<forall>k. redis_sets (backfill env f fu g gu s) k = redis_sets s k \<or>
        redis_sets (backfill env f fu g gu s) k = []) \<and>
   (\<forall>k. k \<noteq> handler_cache_key f \<longrightarrow>
        redis_cache (backfill env f fu g gu s) k = redis_cache s k)"
proof -
  note fr = backfill_loop_frame
  show ?thesis
    unfolding backfill_def
    by (auto simp: redis_del_def split: option.splits prod.splits bool.splits)
       (use fr in \<open>(metis snd_conv)+\<close>)
qed

lemma allFollowers_36:
  assumes "uuid_text36 env" and "stored_ids36 env s" and "Uuid_fromString env userId = Some a"
  shows "\<forall>f \<in> set (allFollowers env s a userId). length f = 36"
  using assms
  by (auto simp: allFollowers_def sMembers_def uuid_text36_def stored_ids36_def)

lemma published_keeps:
  assumes "uuid_text36 env" and "stored_ids36 env s" and "Uuid_fromString env userId = Some a"
    and "length pageUser = 36"
  shows "stored_ids36 env (published env s p a userId ts)"
    and "redis_cache (published env s p a userId ts) (page_cache_key pageUser ofs l)
           = redis_cache s (page_cache_key pageUser ofs l)"
proof -
  from assms(2) show "stored_ids36 env (published env s p a userId ts)"
    by (auto simp: published_def stored_ids36_def)
  have "page_cache_key pageUser ofs l \<notin> handler_cache_key ` set (allFollowers env s a userId)"
    using allFollowers_36 [OF assms(1-3)] handler_key_is_no_page_key [OF _ assms(4)]
    by (metis imageE)
  then show "redis_cache (published env s p a userId ts) (page_cache_key pageUser ofs l)
           = redis_cache s (page_cache_key pageUser ofs l)"
    by (simp add: published_def)
qed

lemma handlePostCreated_keeps:
  assumes "uuid_text36 env" and "stored_ids36 env s" and "length pageUser = 36"
    and "handlePostCreated env s data = Inr s'"
  shows "stored_ids36 env s' \<and>
         redis_cache s' (page_cache_key pageUser ofs l) = redis_cache s (page_cache_key pageUser ofs l)"
proof -
  from handlePostCreated_cases [OF assms(4)] obtain p userId a ts where
    h: "uuid_of env (js_prop data ''postId'') = Some p"
       "js_prop data ''userId'' = Some (JStr userId)" "Uuid_fromString env userId = Some a"
       "new_Date env (js_prop data ''createdAt'') = Some ts"
    by blast
  from assms(4) handlePostCreated_state [OF h, of s] have "s' = published env s p a userId ts"
    by simp
  with published_keeps [OF assms(1,2) h(3) assms(3)] show ?thesis
    by simp
qed

lemma handlePostDeleted_same: "handlePostDeleted env s data = Inr s' \<Longrightarrow> s' = s"
  by (auto simp: handlePostDeleted_def split: if_splits option.splits)

lemma handleUserFollowed_keeps:
  assumes "uuid_text36 env" and "stored_ids36 env s" and "length pageUser = 36"
    and "handleUserFollowed env s data = Inr s'"
  shows "stored_ids36 env s' \<and>
         redis_cache s' (page_cache_key pageUser ofs l) = redis_cache s (page_cache_key pageUser ofs l)"
proof (cases "\<exists>f g fu gu. js_prop data ''followerId'' = Some (JStr f) \<and>
                js_prop data ''followingId'' = Some (JStr g) \<and>
                Uuid_fromString env f = Some fu \<and> Uuid_fromString env g = Some gu")
  case False
  with assms(4) have "s' = s"
    by (auto simp: handleUserFollowed_def split: if_splits option.splits json.splits)
  with assms(2) show ?thesis by simp
next
  case True
  then obtain f g fu gu where
    h: "js_prop data ''followerId'' = Some (JStr f)" "js_prop data ''followingId'' = Some (JStr g)"
       "Uuid_fromString env f = Some fu" "Uuid_fromString env g = Some gu"
    by blast
  from h(1) have nn: "data \<noteq> JNull" by auto
  define s0 where "s0 = sAdd (followers_key g) f (sAdd (following_key f) g
                          (insert_user_following fu gu (insert_user_followers gu fu s)))"
  from assms(4) h nn have s': "s' = backfill env f fu g gu s0"
    by (simp add: handleUserFollowed_def s0_def)
  from assms(1) h(3,4) have len: "length f = 36" "length g = 36" "length (Uuid_toString env fu) = 36"
    by (auto simp: uuid_text36_def)
  from assms(2) len have inv0: "stored_ids36 env s0"
    by (auto simp: s0_def stored_ids36_def sAdd_def insert_user_following_def
        insert_user_followers_def)
  have c0: "redis_cache s0 = redis_cache s"
    by (simp add: s0_def sAdd_def insert_user_following_def insert_user_followers_def)
  note fr = backfill_frame [of env f fu g gu s0]
  have "stored_ids36 env s'"
    unfolding stored_ids36_def s'
  proof (intro conjI allI ballI)
    fix k m assume "m \<in> set (redis_sets (backfill env f fu g gu s0) k)"
    with fr have "m \<in> set (redis_sets s0 k)"
      by (metis empty_iff empty_set)
    with inv0 show "length m = 36" by (auto simp: stored_ids36_def)
  next
    fix a x assume "x \<in> set (user_followers (backfill env f fu g gu s0) a)"
    with fr have "x \<in> set (user_followers s0 a)" by simp
    with inv0 show "length (Uuid_toString env x) = 36" by (auto simp: stored_ids36_def)
  qed
  moreover have "redis_cache s' (page_cache_key pageUser ofs l) = redis_cache s (page_cache_key pageUser ofs l)"
    using fr handler_key_is_no_page_key [OF len(1) assms(3), of ofs l]
    by (simp add: s' c0)
  ultimately show ?thesis by simp
qed

lemma handleUserUnfollowed_keeps:
  assumes "uuid_text36 env" and "stored_ids36 env s" and "length pageUser = 36"
    and "handleUserUnfollowed env s data = Inr s'"
  shows "stored_ids36 env s' \<and>
         redis_cache s' (page_cache_key pageUser ofs l) = redis_cache s (page_cache_key pageUser ofs l)"
proof (cases "\<exists>f g fu gu. js_prop data ''followerId'' = Some (JStr f) \<and>
                js_prop data ''followingId'' = Some (JStr g) \<and>
                Uuid_fromString env f = Some fu \<and> Uuid_fromString env g = Some gu")
  case False
  with assms(4) have "s' = s"
    by (auto simp: handleUserUnfollowed_def split: if_splits option.splits json.splits)
  with assms(2) show ?thesis by simp
next
  case True
  then obtain f g fu gu where
    h: "js_prop data ''followerId'' = Some (JStr f)" "js_prop data ''followingId'' = Some (JStr g)"
       "Uuid_fromString env f = Some fu" "Uuid_fromString env g = Some gu"
    by blast
  from h(1) have nn: "data \<noteq> JNull" by auto
  from assms(4) h nn have s': "s' = redis_del (handler_cache_key f)
                        (sRem (followers_key g) f
                          (sRem (following_key f) g
                            (delete_user_following fu gu
                              (delete_user_followers gu fu s))))"
    by (simp add: handleUserUnfollowed_def)
  from assms(1) h(3) have len: "length f = 36"
    by (auto simp: uuid_text36_def)
  from assms(2) have "stored_ids36 env s'"
    by (auto simp: s' stored_ids36_def redis_del_def sRem_def delete_user_following_def
        delete_user_followers_def)
  moreover have "redis_cache s' (page_cache_key pageUser ofs l) = redis_cache s (page_cache_key pageUser ofs l)"
    using handler_key_is_no_page_key [OF len assms(3), of ofs l]
    by (auto simp: s' redis_del_def sRem_def delete_user_following_def delete_user_followers_def)
  ultimately show ?thesis by simp
qed

lemma handleEvent_keeps:
  assumes "uuid_text36 env" and "stored_ids36 env s" and "length pageUser = 36"
  shows "stored_ids36 env (snd (handleEvent env s m)) \<and>
         redis_cache (snd (handleEvent env s m)) (page_cache_key pageUser ofs l)
           = redis_cache s (page_cache_key pageUser ofs l)"
proof (cases "content m")
  case None
  with assms(2) show ?thesis by (simp add: handleEvent_def)
next
  case (Some data)
  show ?thesis
  proof (cases "dispatch env s (routingKey m) data")
    case (Inl e)
    with Some assms(2) show ?thesis by (simp add: handleEvent_def)
  next
    case (Inr s')
    have "stored_ids36 env s' \<and>
         redis_cache s' (page_cache_key pageUser ofs l) = redis_cache s (page_cache_key pageUser ofs l)"
    proof (cases "routingKey m = ''post.created''")
      case True
      with Inr show ?thesis
        using handlePostCreated_keeps [OF assms] by (simp add: dispatch_def)
    next
      case nc: False
      show ?thesis
      proof (cases "routingKey m = ''post.deleted''")
        case True
        with Inr nc have "s' = s"
          using handlePostDeleted_same by (simp add: dispatch_def)
        with assms(2) show ?thesis by simp
      next
        case nd: False
        show ?thesis
        proof (cases "routingKey m = ''user.followed''")
          case True
          with Inr nc nd show ?thesis
            using handleUserFollowed_keeps [OF assms] by (simp add: dispatch_def)
        next
          case nf: False
          show ?thesis
          proof (cases "routingKey m = ''user.unfollowed''")
            case True
            with Inr nc nd nf show ?thesis
              using handleUserUnfollowed_keeps [OF assms] by (simp add: dispatch_def)
          next
            case False
            with Inr nc nd nf assms(2) show ?thesis
              by (simp add: dispatch_def)
          qed
        qed
      qed
    qed
    with Some Inr show ?thesis by (simp add: handleEvent_def)
  qed
qed

lemma run_events_keeps:
  assumes "uuid_text36 env" and "length pageUser = 36"
  shows "stored_ids36 env s \<Longrightarrow>
         stored_ids36 env (run_events env s msgs) \<and>
         redis_cache (run_events env s msgs) (page_cache_key pageUser ofs l)
           = redis_cache s (page_cache_key pageUser ofs l)"
proof (induction msgs arbitrary: s)
  case Nil
  then show ?case by (simp add: run_events_def)
next
  case (Cons m msgs)
  have step: "run_events env s (m # msgs) = run_events env (snd (handleEvent env s m)) msgs"
    by (simp add: run_events_def)
  from handleEvent_keeps [OF assms(1) Cons.prems assms(2), of m ofs l]
  have inv: "stored_ids36 env (snd (handleEvent env s m))"
    and c: "redis_cache (snd (handleEvent env s m)) (page_cache_key pageUser ofs l)
             = redis_cache s (page_cache_key pageUser ofs l)"
    by simp_all
  from Cons.IH [OF inv] c show ?case
    unfolding step by simp
qed

lemma get_feed_hit:
  "redis_get now s (page_cache_key userId ofs l) = Some pg \<Longrightarrow>
     get_feed env now s userId l ofs = (Json pg, s)"
  by (simp add: get_feed_def)

lemma get_feed_populates:
  assumes "redis_get t1 s (page_cache_key userId ofs l) = None"
    and "get_feed env t1 s userId l ofs = (Json pg, s1)"
    and "offset pg \<noteq> None"
  shows "s1 = setEx t1 (page_cache_key userId ofs l) 120 pg s \<and>
         (\<exists>u. Uuid_fromString env userId = Some u)"
  using assms
  by (auto simp: get_feed_def Let_def split: option.splits if_splits)

text \<open>
  C3, as the code has it. Alice's partition is empty: the first read answers
  \<open>{posts: [], hasMore: false}\<close> and returns before the cache is written. Her post is
  then fanned out, and a second read five seconds later shows it.
\<close>

theorem empty_page_is_not_cached:
  "fst (get_feed (ref_env [alice_post1]) 0 empty_state alice (Some 10) (Some 0))
     = Json \<lparr>posts = [], hasMore = False, offset = None\<rparr> \<and>
   fst (get_feed (ref_env [alice_post1]) 5
          (snd (handleEvent (ref_env [alice_post1])
                 (snd (get_feed (ref_env [alice_post1]) 0 empty_state alice (Some 10) (Some 0)))
                 (post_created post1 alice 100)))
          alice (Some 10) (Some 0))
     = Json \<lparr>posts = [row_json JNum alice_post1], hasMore = False, offset = Some 1\<rparr>"
  by (simp add: read_defs handler_defs ref_defs)

text \<open>
  C3, amended. A read that misses the cache and assembles a page from a non-empty slice
  caches it for 120 seconds. Whatever messages are handled afterwards, every read of the
  same user and page before that expiry returns the same page and leaves the state as it
  is: the handlers delete \<open>feed_cache:<id>\<close>, which is no page key.
\<close>

theorem cached_page_outlives_events:
  assumes "uuid_text36 env" and "stored_ids36 env s"
    and "redis_get t1 s (page_cache_key userId ofs l) = None"
    and "get_feed env t1 s userId l ofs = (Json pg, s1)"
    and "offset pg \<noteq> None"
    and "t2 < t1 + 120"
  shows "get_feed env t2 (run_events env s1 msgs) userId l ofs
           = (Json pg, run_events env s1 msgs)"
proof -
  from get_feed_populates [OF assms(3-5)] obtain u where
    s1: "s1 = setEx t1 (page_cache_key userId ofs l) 120 pg s"
    and u: "Uuid_fromString env userId = Some u"
    by blast
  from assms(1) u have len: "length userId = 36"
    by (auto simp: uuid_text36_def)
  from assms(2) have inv: "stored_ids36 env s1"
    by (simp add: s1 setEx_def stored_ids36_def)
  have "redis_cache (run_events env s1 msgs) (page_cache_key userId ofs l)
          = redis_cache s1 (page_cache_key userId ofs l)"
    using run_events_keeps [OF assms(1) len inv] by simp
  also have "\<dots> = Some (pg, t1 + 120)"
    by (simp add: s1 setEx_def)
  finally have "redis_get t2 (run_events env s1 msgs) (page_cache_key userId ofs l) = Some pg"
    using assms(6) by (simp add: redis_get_def)
  then show ?thesis
    by (rule get_feed_hit)
qed

lemma ref_env_text36: "uuid_text36 (ref_env tbl)"
proof -
  have "length t = 36" if "canonical_uuid t" for t
  proof -
    from that have "length (map uuid_class t) = length ''hhhhhhhh-hhhh-hhhh-hhhh-hhhhhhhhhhhh''"
      unfolding canonical_uuid_def by (rule arg_cong)
    then show ?thesis by simp
  qed
  then show ?thesis
    by (auto simp: uuid_text36_def ref_env_def ref_fromString_def split: if_splits)
qed

theorem cached_page_outlives_events_witness:
  "uuid_text36 (ref_env [alice_post1, alice_post2]) \<and>
   stored_ids36 (ref_env [alice_post1, alice_post2]) alice_published_once \<and>
   redis_get 0 alice_published_once (page_cache_key alice (Some 0) (Some 10)) = None \<and>
   fst (get_feed (ref_env [alice_post1, alice_post2]) 0 alice_published_once alice (Some 10) (Some 0))
     = Json \<lparr>posts = [row_json JNum alice_post1], hasMore = False, offset = Some 1\<rparr> \<and>
   (100::nat) < 0 + 120 \<and>
   user_feeds (run_events (ref_env [alice_post1, alice_post2])
       (snd (get_feed (ref_env [alice_post1, alice_post2]) 0 alice_published_once alice (Some 10) (Some 0)))
       [post_created post2 alice 200]) alice
     = [\<lparr>created_at = 200, post_id = post2, author_id = alice\<rparr>,
        \<lparr>created_at = 100, post_id = post1, author_id = alice\<rparr>] \<and>
   fst (get_feed (ref_env [alice_post1, alice_post2]) 100
     (run_events (ref_env [alice_post1, alice_post2])
       (snd (get_feed (ref_env [alice_post1, alice_post2]) 0 alice_published_once alice (Some 10) (Some 0)))
       [post_created post2 alice 200])
     alice (Some 10) (Some 0))
     = Json \<lparr>posts = [row_json JNum alice_post1], hasMore = False, offset = Some 1\<rparr>"
proof -
  let ?env = "ref_env [alice_post1, alice_post2]"
  let ?pg = "\<lparr>posts = [row_json JNum alice_post1], hasMore = False, offset = Some 1\<rparr>"
  obtain s1 where first: "get_feed ?env 0 alice_published_once alice (Some 10) (Some 0) = (Json ?pg, s1)"
    by (simp add: read_defs ref_defs alice_published_once_def)
  have inv: "stored_ids36 ?env alice_published_once"
    by (simp add: stored_ids36_def alice_published_once_def empty_state_def)
  have miss: "redis_get 0 alice_published_once (page_cache_key alice (Some 0) (Some 10)) = None"
    by (simp add: redis_get_def alice_published_once_def empty_state_def)
  have off: "offset ?pg \<noteq> None" by simp
  have t: "(100::nat) < 0 + 120" by simp
  note th = cached_page_outlives_events [OF ref_env_text36 inv miss first off t,
      of "[post_created post2 alice 200]"]
  have feeds: "user_feeds (run_events ?env s1 [post_created post2 alice 200]) alice
     = [\<lparr>created_at = 200, post_id = post2, author_id = alice\<rparr>,
        \<lparr>created_at = 100, post_id = post1, author_id = alice\<rparr>]"
    using first
    by (simp add: read_defs handler_defs ref_defs run_events_def alice_published_once_def)
       (auto simp: handler_defs)
  from th first feeds miss inv t show ?thesis
    using ref_env_text36 [of "[alice_post1, alice_post2]"] by simp
qed

section \<open>Pagination\<close>

lemma js_slice_window:
  "js_slice (take (Suc (a + b)) xs) (int a) (int a + int b) = take b (drop a xs)"
proof -
  let ?ys = "take (Suc (a + b)) xs"
  have k: "nat (min (int a) (int (length ?ys))) = min a (length ?ys)"
    by simp
  have e: "nat (min (int a + int b) (int (length ?ys)) - min (int a) (int (length ?ys)))
             = min (a + b) (length ?ys) - min a (length ?ys)"
    by arith
  have "js_slice ?ys (int a) (int a + int b)
          = take (min (a + b) (length ?ys) - min a (length ?ys)) (drop (min a (length ?ys)) ?ys)"
    unfolding js_slice_def Let_def using k e by simp
  also have "\<dots> = take b (drop a xs)"
    by (cases "a \<le> length xs") (auto simp: min_def drop_take)
  finally show ?thesis .
qed

lemma js_slice_past_end:
  "int (length xs) \<le> a \<Longrightarrow> js_slice xs a b = []"
  by (auto simp: js_slice_def Let_def min_def max_def)

lemma feed_items_window:
  assumes "0 \<le> ofs" and "0 \<le> l"
  shows "feed_items s u l ofs = take (nat l) (drop (nat ofs) (user_feeds s u))"
proof -
  have n: "nat (l + ofs + 1) = Suc (nat ofs + nat l)"
    using assms by simp
  have "feed_items s u l ofs
          = js_slice (take (Suc (nat ofs + nat l)) (user_feeds s u)) (int (nat ofs))
              (int (nat ofs) + int (nat l))"
    using assms by (simp add: feed_items_def fetched_rows_def n)
  then show ?thesis
    by (simp only: js_slice_window)
qed

lemma feed_items_past_end:
  assumes "int (length (user_feeds s u)) \<le> ofs"
  shows "feed_items s u l ofs = []"
proof -
  have "int (length (fetched_rows s u l ofs)) \<le> ofs"
    using assms by (simp add: fetched_rows_def)
  then show ?thesis
    unfolding feed_items_def by (rule js_slice_past_end)
qed

text \<open>
  C5, as the code has it, at two inputs. First, a page of limit 1 is read and cached while
  Alice's partition holds one row; a newer post is fanned out; five seconds later the
  same read returns the cached page, although the slice \<open>[0, 1)\<close> of the partition is now
  the new row and two rows would be fetched. Second, with limit 0 and one row in the
  partition, one row is fetched, which exceeds \<open>offset + limit = 0\<close>, yet the slice is
  empty and the answer is \<open>{posts: [], hasMore: false}\<close>.
\<close>

theorem stale_hit_and_empty_slice:
  "fst (get_feed (ref_env [alice_post1, alice_post2]) 5
         (run_events (ref_env [alice_post1, alice_post2])
            (snd (get_feed (ref_env [alice_post1, alice_post2]) 0 alice_published_once
                    alice (Some 1) (Some 0)))
            [post_created post2 alice 200])
         alice (Some 1) (Some 0))
     = Json \<lparr>posts = [row_json JNum alice_post1], hasMore = False, offset = Some 1\<rparr> \<and>
   feed_items
     (run_events (ref_env [alice_post1, alice_post2])
        (snd (get_feed (ref_env [alice_post1, alice_post2]) 0 alice_published_once
                alice (Some 1) (Some 0)))
        [post_created post2 alice 200])
     alice 1 0
     = [\<lparr>created_at = 200, post_id = post2, author_id = alice\<rparr>] \<and>
   fst (get_feed (ref_env [alice_post1]) 0 alice_published_once alice (Some 0) (Some 0))
     = Json \<lparr>posts = [], hasMore = False, offset = None\<rparr> \<and>
   length (fetched_rows alice_published_once alice 0 0) = 1"
  by (simp add: read_defs handler_defs ref_defs run_events_def alice_published_once_def
      page_cache_key_def handler_cache_key_def)

text \<open>
  C5, amended. On a cache miss, for a user id that is a UUID and a bound
  \<open>offset + limit + 1\<close> the store accepts, the read fetches the first
  \<open>offset + limit + 1\<close> rows of the partition and slices them; for a non-negative offset
  and limit the slice is rows \<open>[offset, offset + limit)\<close> of the partition. An empty slice
  is answered \<open>{posts: [], hasMore: false}\<close>, in particular when the offset is at least
  the number of rows; otherwise the answer holds the posts of the slice that resolve,
  and \<open>hasMore\<close> tells whether more than \<open>offset + limit\<close> rows were fetched.
\<close>

theorem page_on_cache_miss:
  assumes "redis_get now s (page_cache_key userId (Some ofs) (Some l)) = None"
    and "Uuid_fromString env userId = Some u"
    and "valid_limit (l + ofs + 1)"
  shows "fst (get_feed env now s userId (Some l) (Some ofs)) =
           (if feed_items s u l ofs = [] then Json \<lparr>posts = [], hasMore = False, offset = None\<rparr>
            else Json \<lparr>posts = List.map_filter (resolve env) (feed_items s u l ofs),
                       hasMore = (ofs + l < int (length (fetched_rows s u l ofs))),
                       offset = Some (ofs + int (length (List.map_filter (resolve env)
                                                           (feed_items s u l ofs))))\<rparr>) \<and>
         fetched_rows s u l ofs = take (nat (ofs + l + 1)) (user_feeds s u) \<and>
         (0 \<le> ofs \<and> 0 \<le> l \<longrightarrow>
            feed_items s u l ofs = take (nat l) (drop (nat ofs) (user_feeds s u))) \<and>
         (int (length (user_feeds s u)) \<le> ofs \<longrightarrow>
            fst (get_feed env now s userId (Some l) (Some ofs))
              = Json \<lparr>posts = [], hasMore = False, offset = None\<rparr>)"
proof (intro conjI impI)
  show "fst (get_feed env now s userId (Some l) (Some ofs)) =
           (if feed_items s u l ofs = [] then Json \<lparr>posts = [], hasMore = False, offset = None\<rparr>
            else Json \<lparr>posts = List.map_filter (resolve env) (feed_items s u l ofs),
                       hasMore = (ofs + l < int (length (fetched_rows s u l ofs))),
                       offset = Some (ofs + int (length (List.map_filter (resolve env)
                                                           (feed_items s u l ofs))))\<rparr>)"
    by (simp add: get_feed_miss [OF assms] Let_def)
  show "fetched_rows s u l ofs = take (nat (ofs + l + 1)) (user_feeds s u)"
    by (simp add: fetched_rows_def add.commute)
  show "feed_items s u l ofs = take (nat l) (drop (nat ofs) (user_feeds s u))"
    if "0 \<le> ofs \<and> 0 \<le> l"
    using that by (simp add: feed_items_window)
  show "fst (get_feed env now s userId (Some l) (Some ofs))
              = Json \<lparr>posts = [], hasMore = False, offset = None\<rparr>"
    if "int (length (user_feeds s u)) \<le> ofs"
    using that by (simp add: get_feed_miss [OF assms] feed_items_past_end)
qed

theorem page_on_cache_miss_witness:
  "redis_get 0 alice_has_two_rows (page_cache_key alice (Some 1) (Some 1)) = None \<and>
   Uuid_fromString (ref_env [bob_post1, bob_post2]) alice = Some alice \<and>
   valid_limit (1 + 1 + 1) \<and> (0::int) \<le> 1 \<and>
   feed_items alice_has_two_rows alice 1 1
     = take (nat 1) (drop (nat 1) (user_feeds alice_has_two_rows alice)) \<and>
   fst (get_feed (ref_env [bob_post1, bob_post2]) 0 alice_has_two_rows alice (Some 1) (Some 1))
     = Json \<lparr>posts = [row_json JNum bob_post1], hasMore = False, offset = Some 2\<rparr> \<and>
   redis_get 0 alice_has_two_rows (page_cache_key alice (Some 2) (Some 1)) = None \<and>
   valid_limit (1 + 2 + 1) \<and>
   int (length (user_feeds alice_has_two_rows alice)) \<le> 2 \<and>
   fst (get_feed (ref_env [bob_post1, bob_post2]) 0 alice_has_two_rows alice (Some 1) (Some 2))
     = Json \<lparr>posts = [], hasMore = False, offset = None\<rparr>"
  using page_on_cache_miss [of 0 alice_has_two_rows alice 1 1 "ref_env [bob_post1, bob_post2]" alice]
    page_on_cache_miss [of 0 alice_has_two_rows alice 2 1 "ref_env [bob_post1, bob_post2]" alice]
  by (simp add: read_defs ref_defs alice_has_two_rows_def)

section \<open>Backfill on follow\<close>

lemma select_user_posts_length: "length (select_user_posts tbl g c n) \<le> n"
  by (simp add: select_user_posts_def)

lemma select_user_posts_full:
  "n \<le> length (filter (\<lambda>p. p_user_id p = g) tbl) \<Longrightarrow>
     length (select_user_posts tbl g None n) = n"
  by (simp add: select_user_posts_def)

lemma select_user_posts_owner:
  "p \<in> set (select_user_posts tbl g c n) \<Longrightarrow> p \<in> set tbl \<and> p_user_id p = g"
  by (auto simp: select_user_posts_def dest: in_set_takeD)

lemma select_user_posts_desc:
  "sorted_wrt (\<lambda>p q. p_created_at q \<le> p_created_at p) (select_user_posts tbl g c n)"
proof -
  let ?ys = "sort_key (\<lambda>p. - p_created_at p)
       (filter (\<lambda>p. p_user_id p = g \<and>
                  (case c of None \<Rightarrow> True | Some t \<Rightarrow> p_created_at p < t)) tbl)"
  have "sorted (map (\<lambda>p. - p_created_at p) ?ys)"
    by (rule sorted_sort_key)
  then have "sorted_wrt (\<lambda>p q. p_created_at q \<le> p_created_at p) ?ys"
    by (simp add: sorted_wrt_map)
  then show ?thesis
    unfolding select_user_posts_def by (rule sorted_wrt_take)
qed

lemma select_user_posts_most_recent:
  assumes "p \<in> set (select_user_posts tbl g None n)"
    and "q \<in> set tbl" and "p_user_id q = g" and "q \<notin> set (select_user_posts tbl g None n)"
  shows "p_created_at q \<le> p_created_at p"
proof -
  let ?ys = "sort_key (\<lambda>p. - p_created_at p) (filter (\<lambda>p. p_user_id p = g) tbl)"
  have sel: "select_user_posts tbl g None n = take n ?ys"
    by (simp add: select_user_posts_def)
  have "sorted (map (\<lambda>p. - p_created_at p) ?ys)"
    by (rule sorted_sort_key)
  then have "sorted_wrt (\<lambda>p q. p_created_at q \<le> p_created_at p) (take n ?ys @ drop n ?ys)"
    by (simp add: sorted_wrt_map)
  then have ord: "\<forall>x \<in> set (take n ?ys). \<forall>y \<in> set (drop n ?ys). p_created_at y \<le> p_created_at x"
    unfolding sorted_wrt_append by blast
  from assms(2,3) have "q \<in> set (take n ?ys @ drop n ?ys)"
    by simp
  with assms(4) have "q \<in> set (drop n ?ys)"
    unfolding sel set_append by blast
  with ord assms(1) show ?thesis
    unfolding sel by blast
qed

lemma strictly_desc:
  "sorted_wrt (\<lambda>p q. key q \<le> key p) xs \<Longrightarrow> distinct (map key xs) \<Longrightarrow>
     sorted_wrt (\<lambda>p q. (key q :: int) < key p) xs"
proof (induction xs)
  case Nil
  show ?case by simp
next
  case (Cons a xs)
  then have tl: "sorted_wrt (\<lambda>p q. key q < key p) xs"
    by simp
  have "key y < key a" if "y \<in> set xs" for y
  proof -
    from that Cons.prems have "key y \<le> key a"
      by simp
    moreover from Cons.prems have "key a \<notin> key ` set xs"
      by simp
    with that have "key y \<noteq> key a"
      by (metis imageI)
    ultimately show ?thesis by simp
  qed
  with tl show ?case by simp
qed

lemma response_posts_body:
  "response_posts (user_posts_body dj rows) = Some (map (row_json dj) rows)"
  by (simp add: user_posts_body_def)

lemma backfill_loop_rows:
  assumes "\<forall>p \<in> set ps. Date_time env (dj (p_created_at p)) = Some (p_created_at p)"
    and "\<forall>p \<in> set ps. Uuid_fromString env (p_id p) = Some (pu p)"
  shows "backfill_loop env fu gu (map (row_json dj) ps) s =
     (True, s\<lparr>user_feeds := (user_feeds s)(fu :=
        foldl (\<lambda>xs r. upsert r xs) (user_feeds s fu) (map (backfill_row pu gu) ps))\<rparr>)"
  using assms
proof (induction ps arbitrary: s)
  case Nil
  show ?case by simp
next
  case (Cons p ps)
  have step: "backfill_loop env fu gu (row_json dj p # map (row_json dj) ps) s =
      backfill_loop env fu gu (map (row_json dj) ps)
        (insert_user_feeds fu (backfill_row pu gu p) s)"
    using Cons.prems by (simp add: row_json_def backfill_row_def)
  from Cons.prems have rest: "\<forall>p \<in> set ps. Date_time env (dj (p_created_at p)) = Some (p_created_at p)"
    "\<forall>p \<in> set ps. Uuid_fromString env (p_id p) = Some (pu p)"
    by simp_all
  show ?case
    unfolding list.map step Cons.IH [OF rest]
    by (simp add: insert_user_feeds_def fun_eq_iff)
qed

lemma upsert_oldest:
  "\<forall>x \<in> set xs. created_at r < created_at x \<Longrightarrow> upsert r xs = xs @ [r]"
  by (induction xs) auto

lemma foldl_upsert_clustered:
  "clustered (acc @ rows) \<Longrightarrow> foldl (\<lambda>xs r. upsert r xs) acc rows = acc @ rows"
proof (induction rows arbitrary: acc)
  case Nil
  show ?case by simp
next
  case (Cons r rows)
  from Cons.prems have "\<forall>x \<in> set acc. created_at r < created_at x"
    by (auto simp: clustered_def sorted_wrt_append)
  then have "upsert r acc = acc @ [r]"
    by (rule upsert_oldest)
  moreover from Cons.prems have "clustered ((acc @ [r]) @ rows)"
    by simp
  ultimately show ?case
    using Cons.IH [of "acc @ [r]"] by simp
qed

lemma map_filter_all_Some:
  "\<forall>x \<in> set xs. f (h x) = Some (g x) \<Longrightarrow> List.map_filter f (map h xs) = map g xs"
  by (induction xs) auto

lemma handleUserFollowed_state:
  assumes "js_prop data ''followerId'' = Some (JStr f)"
    and "js_prop data ''followingId'' = Some (JStr g)"
    and "Uuid_fromString env f = Some fu"
    and "Uuid_fromString env g = Some gu"
    and "axios_get_user_posts env g = Some (user_posts_body dj ps)"
    and "\<forall>p \<in> set ps. Date_time env (dj (p_created_at p)) = Some (p_created_at p)"
    and "\<forall>p \<in> set ps. Uuid_fromString env (p_id p) = Some (pu p)"
  shows "\<exists>s'. handleUserFollowed env s data = Inr s' \<and>
           user_feeds s' fu
             = foldl (\<lambda>xs r. upsert r xs) (user_feeds s fu) (map (backfill_row pu gu) ps) \<and>
           (\<forall>k. redis_cache s' k = None \<or> redis_cache s' k = redis_cache s k)"
proof -
  from assms(1) have nn: "data \<noteq> JNull" by auto
  define s0 where "s0 = sAdd (followers_key g) f (sAdd (following_key f) g
                          (insert_user_following fu gu (insert_user_followers gu fu s)))"
  have s0: "user_feeds s0 = user_feeds s" "redis_cache s0 = redis_cache s"
    by (simp_all add: s0_def sAdd_def insert_user_following_def insert_user_followers_def)
  define s1 where "s1 = s0\<lparr>user_feeds := (user_feeds s0)(fu :=
        foldl (\<lambda>xs r. upsert r xs) (user_feeds s0 fu) (map (backfill_row pu gu) ps))\<rparr>"
  have loop: "backfill_loop env fu gu (map (row_json dj) ps) s0 = (True, s1)"
    unfolding s1_def by (rule backfill_loop_rows [OF assms(6,7)])
  have "backfill env f fu g gu s0 = redis_del (handler_cache_key f) s1"
    by (simp add: backfill_def assms(5) response_posts_body loop)
  with assms(1-4) nn have "handleUserFollowed env s data = Inr (redis_del (handler_cache_key f) s1)"
    by (simp add: handleUserFollowed_def s0_def)
  moreover have "user_feeds (redis_del (handler_cache_key f) s1) fu
             = foldl (\<lambda>xs r. upsert r xs) (user_feeds s fu) (map (backfill_row pu gu) ps)"
    by (simp add: redis_del_def s1_def s0)
  moreover have "redis_cache (redis_del (handler_cache_key f) s1) k = None \<or>
                 redis_cache (redis_del (handler_cache_key f) s1) k = redis_cache s k" for k
    by (simp add: redis_del_def s1_def s0)
  ultimately show ?thesis by blast
qed

text \<open>
  C6, amended. Let the followee have at least twenty posts and let the Post service
  answer the backfill request with its route's result, the ids being UUIDs and the dates
  valid. Then \<open>handleUserFollowed\<close> completes and upserts into the follower's partition
  one row for each of the followee's twenty most recent posts, keyed by the post's own
  \<open>created_at\<close>. If the follower's partition was empty, the twenty posts have pairwise
  distinct \<open>created_at\<close>, all of them resolve and no page is cached for the follower at
  offset 0 and limit 20, the partition is exactly these rows, in clustering order, and the
  read returns exactly these posts, newest first, with \<open>hasMore\<close> false.
\<close>

theorem backfill_on_follow:
  assumes "js_prop data ''followerId'' = Some (JStr f)"
    and "js_prop data ''followingId'' = Some (JStr g)"
    and "Uuid_fromString env f = Some fu"
    and "Uuid_fromString env g = Some gu"
    and "axios_get_user_posts env g = Some (user_posts_body dj (select_user_posts tbl g None 20))"
    and "\<forall>p \<in> set tbl. Date_time env (dj (p_created_at p)) = Some (p_created_at p)"
    and "\<forall>p \<in> set tbl. Uuid_fromString env (p_id p) = Some (pu p)"
    and "20 \<le> length (filter (\<lambda>p. p_user_id p = g) tbl)"
  shows "\<exists>s'. handleEvent env s \<lparr>routingKey = ''user.followed'', content = Some data\<rparr> = (Ack, s') \<and>
     length (select_user_posts tbl g None 20) = 20 \<and>
     (\<forall>p \<in> set (select_user_posts tbl g None 20). p \<in> set tbl \<and> p_user_id p = g \<and>
        (\<forall>q \<in> set tbl. p_user_id q = g \<and> q \<notin> set (select_user_posts tbl g None 20)
            \<longrightarrow> p_created_at q \<le> p_created_at p)) \<and>
     user_feeds s' fu = foldl (\<lambda>xs r. upsert r xs) (user_feeds s fu)
                          (map (backfill_row pu gu) (select_user_posts tbl g None 20)) \<and>
     (user_feeds s fu = [] \<and>
      distinct (map p_created_at (select_user_posts tbl g None 20)) \<and>
      redis_get now s (page_cache_key f (Some 0) (Some 20)) = None \<and>
      (\<forall>p \<in> set (select_user_posts tbl g None 20).
          axios_get_post env (Uuid_toString env (pu p)) = Some (body p))
      \<longrightarrow>
        user_feeds s' fu = map (backfill_row pu gu) (select_user_posts tbl g None 20) \<and>
        clustered (user_feeds s' fu) \<and>
        fst (get_feed env now s' f (Some 20) (Some 0))
          = Json \<lparr>posts = map body (select_user_posts tbl g None 20), hasMore = False,
                  offset = Some 20\<rparr>)"
proof -
  define P where "P = select_user_posts tbl g None 20"
  define rows where "rows = map (backfill_row pu gu) P"
  have sub: "\<forall>p \<in> set P. p \<in> set tbl \<and> p_user_id p = g"
    unfolding P_def using select_user_posts_owner by blast
  have len: "length P = 20"
    unfolding P_def using assms(8) by (rule select_user_posts_full)
  have recent: "\<forall>p \<in> set P. \<forall>q \<in> set tbl. p_user_id q = g \<and> q \<notin> set P
                  \<longrightarrow> p_created_at q \<le> p_created_at p"
    unfolding P_def using select_user_posts_most_recent by blast
  from sub assms(6,7) have ok: "\<forall>p \<in> set P. Date_time env (dj (p_created_at p)) = Some (p_created_at p)"
    "\<forall>p \<in> set P. Uuid_fromString env (p_id p) = Some (pu p)"
    by simp_all
  from handleUserFollowed_state [OF assms(1-4) assms(5) [folded P_def] ok, of s]
  obtain s' where
    s': "handleUserFollowed env s data = Inr s'"
    and part: "user_feeds s' fu = foldl (\<lambda>xs r. upsert r xs) (user_feeds s fu) rows"
    and cache: "\<forall>k. redis_cache s' k = None \<or> redis_cache s' k = redis_cache s k"
    unfolding rows_def by blast
  have ev: "handleEvent env s \<lparr>routingKey = ''user.followed'', content = Some data\<rparr> = (Ack, s')"
    by (simp add: handleEvent_def dispatch_def s')
  have page: "user_feeds s' fu = rows \<and> clustered (user_feeds s' fu) \<and>
        fst (get_feed env now s' f (Some 20) (Some 0))
          = Json \<lparr>posts = map body P, hasMore = False, offset = Some 20\<rparr>"
    if empty: "user_feeds s fu = []"
      and dist: "distinct (map p_created_at P)"
      and miss: "redis_get now s (page_cache_key f (Some 0) (Some 20)) = None"
      and res: "\<forall>p \<in> set P. axios_get_post env (Uuid_toString env (pu p)) = Some (body p)"
  proof -
    have "sorted_wrt (\<lambda>p q. p_created_at q < p_created_at p) P"
      using select_user_posts_desc [of tbl g None 20] dist
      unfolding P_def by (rule strictly_desc)
    then have cl: "clustered rows"
      by (simp add: clustered_def rows_def sorted_wrt_map backfill_row_def)
    with part empty have rows: "user_feeds s' fu = rows"
      using foldl_upsert_clustered [of "[]" rows] by simp
    have miss': "redis_get now s' (page_cache_key f (Some 0) (Some 20)) = None"
      using miss cache [rule_format, of "page_cache_key f (Some 0) (Some 20)"]
      by (auto simp: redis_get_def split: option.splits)
    have v: "valid_limit (20 + 0 + 1)"
      by (simp add: valid_limit_def)
    have lr: "length rows = 20"
      by (simp add: rows_def len)
    have items: "feed_items s' fu 20 0 = rows"
      by (simp add: feed_items_window rows lr)
    have fetched: "fetched_rows s' fu 20 0 = rows"
      by (simp add: fetched_rows_def rows lr)
    have hyd: "List.map_filter (resolve env) rows = map body P"
      unfolding rows_def
      by (rule map_filter_all_Some) (use res in \<open>simp add: resolve_def backfill_row_def\<close>)
    from lr have ne: "rows \<noteq> []" by auto
    have "fst (get_feed env now s' f (Some 20) (Some 0))
          = Json \<lparr>posts = map body P, hasMore = False, offset = Some 20\<rparr>"
      by (simp add: get_feed_miss [OF miss' assms(3) v] items fetched hyd ne lr len Let_def)
    with rows cl show ?thesis by simp
  qed
  have "handleEvent env s \<lparr>routingKey = ''user.followed'', content = Some data\<rparr> = (Ack, s') \<and>
     length P = 20 \<and>
     (\<forall>p \<in> set P. p \<in> set tbl \<and> p_user_id p = g \<and>
        (\<forall>q \<in> set tbl. p_user_id q = g \<and> q \<notin> set P \<longrightarrow> p_created_at q \<le> p_created_at p)) \<and>
     user_feeds s' fu = foldl (\<lambda>xs r. upsert r xs) (user_feeds s fu) rows \<and>
     (user_feeds s fu = [] \<and> distinct (map p_created_at P) \<and>
      redis_get now s (page_cache_key f (Some 0) (Some 20)) = None \<and>
      (\<forall>p \<in> set P. axios_get_post env (Uuid_toString env (pu p)) = Some (body p))
      \<longrightarrow>
        user_feeds s' fu = rows \<and> clustered (user_feeds s' fu) \<and>
        fst (get_feed env now s' f (Some 20) (Some 0))
          = Json \<lparr>posts = map body P, hasMore = False, offset = Some 20\<rparr>)"
  proof (intro conjI impI ballI)
    show "handleEvent env s \<lparr>routingKey = ''user.followed'', content = Some data\<rparr> = (Ack, s')"
      by (rule ev)
    show "length P = 20" by (rule len)
    show "user_feeds s' fu = foldl (\<lambda>xs r. upsert r xs) (user_feeds s fu) rows"
      by (rule part)
  next
    fix p assume "p \<in> set P"
    with sub show "p \<in> set tbl" "p_user_id p = g" by simp_all
  next
    fix p q assume "p \<in> set P" "q \<in> set tbl" "p_user_id q = g \<and> q \<notin> set P"
    with recent show "p_created_at q \<le> p_created_at p" by simp
  next
    assume c: "user_feeds s fu = [] \<and> distinct (map p_created_at P) \<and>
      redis_get now s (page_cache_key f (Some 0) (Some 20)) = None \<and>
      (\<forall>p \<in> set P. axios_get_post env (Uuid_toString env (pu p)) = Some (body p))"
    from c have c1: "user_feeds s fu = []" by (rule conjunct1)
    from c have c2: "distinct (map p_created_at P)" by simp
    from c have c3: "redis_get now s (page_cache_key f (Some 0) (Some 20)) = None" by simp
    from c have c4: "\<forall>p \<in> set P. axios_get_post env (Uuid_toString env (pu p)) = Some (body p)"
      by simp
    note pg = page [OF c1 c2 c3 c4]
    from pg show "user_feeds s' fu = rows" by (rule conjunct1)
    from pg show "clustered (user_feeds s' fu)" by (rule conjunct1 [OF conjunct2])
    from pg show "fst (get_feed env now s' f (Some 20) (Some 0))
          = Json \<lparr>posts = map body P, hasMore = False, offset = Some 20\<rparr>"
      by (rule conjunct2 [OF conjunct2])
  qed
  then show ?thesis
    unfolding rows_def P_def by (rule exI [of _ s'])
qed

lemma twenty_selected:
  "select_user_posts twenty_posts alice None 20 = rev twenty_posts"
  by (simp add: select_user_posts_def twenty_posts_def)

lemma twenty_selected_with_carol:
  "select_user_posts (carol_post # twenty_posts) alice None 20 = rev twenty_posts"
  by (simp add: select_user_posts_def twenty_posts_def carol_post_def)

lemma find_by_id:
  "distinct (map p_id tbl) \<Longrightarrow> p \<in> set tbl \<Longrightarrow> find (\<lambda>q. p_id q = p_id p) tbl = Some p"
  by (induction tbl) (auto simp: image_iff)

lemma digit_is_no_f: "k < 10 \<Longrightarrow> ''0123456789'' ! k \<noteq> CHR ''f''"
proof -
  assume "k < 10"
  then have "k \<in> {0, 1, 2, 3, 4, 5, 6, 7, 8, 9}" by auto
  then show ?thesis by auto
qed

lemma post_no_neq_post1: "post_no n \<noteq> post1"
proof -
  have "n div 10 mod 10 < 10" by simp
  then have "''0123456789'' ! (n div 10 mod 10) \<noteq> CHR ''f''"
    by (rule digit_is_no_f)
  then show ?thesis
    by (simp add: post_no_def post1_def digit4_def)
qed

lemma twenty_posts_facts:
  "length twenty_posts = 20"
  "distinct (map p_id twenty_posts)"
  "distinct (map p_created_at twenty_posts)"
  "\<forall>p \<in> set twenty_posts. p_user_id p = alice"
  "\<forall>p \<in> set twenty_posts. ref_fromString (p_id p) = Some (p_id p)"
  "\<forall>p \<in> set twenty_posts. p_created_at p < 5000"
  "\<forall>p \<in> set twenty_posts. p_id p \<noteq> post1"
proof -
  show "length twenty_posts = 20" by (simp add: twenty_posts_def)
  show "distinct (map p_id twenty_posts)"
    by (simp add: twenty_posts_def post_no_def digit4_def)
  show "distinct (map p_created_at twenty_posts)"
    by (simp add: twenty_posts_def)
  show "\<forall>p \<in> set twenty_posts. p_user_id p = alice"
    by (simp add: twenty_posts_def)
  show "\<forall>p \<in> set twenty_posts. ref_fromString (p_id p) = Some (p_id p)"
    by (simp add: twenty_posts_def)
  show "\<forall>p \<in> set twenty_posts. p_created_at p < 5000"
    by (simp add: twenty_posts_def)
  show "\<forall>p \<in> set twenty_posts. p_id p \<noteq> post1"
    by (simp add: twenty_posts_def post_no_neq_post1)
qed

text \<open>
  C6, as the code has it. Bob's partition already holds a post of Carol's that is newer
  than all of Alice's twenty posts. After Bob follows Alice, the first page of twenty is
  Carol's post followed by the nineteen newest of Alice's; the twentieth backfilled post
  is not on it, and \<open>hasMore\<close> is true.
\<close>

theorem newer_rows_come_first:
  "20 \<le> length (filter (\<lambda>p. p_user_id p = alice) (carol_post # twenty_posts)) \<and>
   select_user_posts (carol_post # twenty_posts) alice None 20 = rev twenty_posts \<and>
   fst (get_feed (ref_env (carol_post # twenty_posts)) 0
         (snd (handleEvent (ref_env (carol_post # twenty_posts)) bob_sees_carol
                 \<lparr>routingKey = ''user.followed'', content = Some (edge_payload bob alice)\<rparr>))
         bob (Some 20) (Some 0))
     = Json \<lparr>posts = row_json JNum carol_post # map (row_json JNum) (take 19 (rev twenty_posts)),
             hasMore = True, offset = Some 20\<rparr>"
proof -
  let ?tbl = "carol_post # twenty_posts"
  let ?env = "ref_env ?tbl"
  let ?carol_row = "\<lparr>created_at = 5000, post_id = post1, author_id = carol\<rparr>"
  let ?rows = "map (backfill_row p_id alice) (rev twenty_posts)"
  note tw = twenty_posts_facts
  have many: "20 \<le> length (filter (\<lambda>p. p_user_id p = alice) ?tbl)"
    using tw(1,4) by (simp add: carol_post_def)
  have ids: "js_prop (edge_payload bob alice) ''followerId'' = Some (JStr bob)"
    "js_prop (edge_payload bob alice) ''followingId'' = Some (JStr alice)"
    "Uuid_fromString ?env bob = Some bob" "Uuid_fromString ?env alice = Some alice"
    by (simp_all add: edge_payload_def ref_env_def)
  have svc: "axios_get_user_posts ?env alice = Some (user_posts_body JNum (rev twenty_posts))"
    by (simp add: ref_env_def twenty_selected_with_carol)
  have dates: "\<forall>p \<in> set (rev twenty_posts). Date_time ?env (JNum (p_created_at p)) = Some (p_created_at p)"
    by (simp add: ref_env_def ref_Date_time_def)
  have pids: "\<forall>p \<in> set (rev twenty_posts). Uuid_fromString ?env (p_id p) = Some (p_id p)"
    using tw(5) by (simp add: ref_env_def)
  from handleUserFollowed_state [OF ids svc dates pids, of bob_sees_carol]
  obtain s' where
    s': "handleUserFollowed ?env bob_sees_carol (edge_payload bob alice) = Inr s'"
    and part: "user_feeds s' bob = foldl (\<lambda>xs r. upsert r xs) (user_feeds bob_sees_carol bob) ?rows"
    and cache: "\<forall>k. redis_cache s' k = None \<or> redis_cache s' k = redis_cache bob_sees_carol k"
    by blast
  have ev: "snd (handleEvent ?env bob_sees_carol
                 \<lparr>routingKey = ''user.followed'', content = Some (edge_payload bob alice)\<rparr>) = s'"
    by (simp add: handleEvent_def dispatch_def s')
  have "sorted_wrt (\<lambda>p q. p_created_at q < p_created_at p) (rev twenty_posts)"
    using select_user_posts_desc [of ?tbl alice None 20] tw(3)
    unfolding twenty_selected_with_carol
    by (intro strictly_desc) (simp_all add: rev_map [symmetric])
  then have "clustered ([?carol_row] @ ?rows)"
    using tw(6) by (simp add: clustered_def sorted_wrt_map backfill_row_def)
  from foldl_upsert_clustered [OF this] part
  have partition: "user_feeds s' bob = ?carol_row # ?rows"
    by (simp add: bob_sees_carol_def)
  have miss: "redis_get 0 s' (page_cache_key bob (Some 0) (Some 20)) = None"
    using cache [rule_format, of "page_cache_key bob (Some 0) (Some 20)"]
    by (auto simp: redis_get_def bob_sees_carol_def empty_state_def)
  have v: "valid_limit (20 + 0 + 1)"
    by (simp add: valid_limit_def)
  have items: "feed_items s' bob 20 0 = ?carol_row # take 19 ?rows"
    by (simp add: feed_items_window partition)
  have fetched: "length (fetched_rows s' bob 20 0) = 21"
    by (simp add: fetched_rows_def partition tw(1))
  have dist: "distinct (map p_id ?tbl)"
    using tw(2,7) by (auto simp: carol_post_def)
  have res: "resolve ?env (backfill_row p_id alice p) = Some (row_json JNum p)" if "p \<in> set ?tbl" for p
    using find_by_id [OF dist that] by (simp add: resolve_def backfill_row_def ref_env_def)
  have "List.map_filter (resolve ?env) (take 19 ?rows)
          = map (row_json JNum) (take 19 (rev twenty_posts))"
    unfolding take_map
    by (rule map_filter_all_Some) (use res in \<open>auto dest: in_set_takeD\<close>)
  moreover have "resolve ?env ?carol_row = Some (row_json JNum carol_post)"
    using res [of carol_post] by (simp add: backfill_row_def carol_post_def resolve_def)
  ultimately have hyd: "List.map_filter (resolve ?env) (?carol_row # take 19 ?rows)
          = row_json JNum carol_post # map (row_json JNum) (take 19 (rev twenty_posts))"
    by simp
  have "fst (get_feed ?env 0 s' bob (Some 20) (Some 0))
     = Json \<lparr>posts = row_json JNum carol_post # map (row_json JNum) (take 19 (rev twenty_posts)),
             hasMore = True, offset = Some 20\<rparr>"
    unfolding get_feed_miss [OF miss ids(3) v] items hyd fetched
    by (simp add: Let_def tw(1))
  with many show ?thesis
    unfolding ev by (simp add: twenty_selected_with_carol)
qed

theorem backfill_on_follow_witness:
  "20 \<le> length (filter (\<lambda>p. p_user_id p = alice) twenty_posts) \<and>
   user_feeds empty_state bob = [] \<and>
   distinct (map p_created_at (select_user_posts twenty_posts alice None 20)) \<and>
   redis_get 0 empty_state (page_cache_key bob (Some 0) (Some 20)) = None \<and>
   (\<exists>s'. handleEvent (ref_env twenty_posts) empty_state
            \<lparr>routingKey = ''user.followed'', content = Some (edge_payload bob alice)\<rparr> = (Ack, s') \<and>
         user_feeds s' bob = map (backfill_row p_id alice) (rev twenty_posts) \<and>
         fst (get_feed (ref_env twenty_posts) 0 s' bob (Some 20) (Some 0))
           = Json \<lparr>posts = map (row_json JNum) (rev twenty_posts), hasMore = False,
                   offset = Some 20\<rparr>)"
proof -
  let ?env = "ref_env twenty_posts"
  note tw = twenty_posts_facts
  have ids: "js_prop (edge_payload bob alice) ''followerId'' = Some (JStr bob)"
    "js_prop (edge_payload bob alice) ''followingId'' = Some (JStr alice)"
    "Uuid_fromString ?env bob = Some bob" "Uuid_fromString ?env alice = Some alice"
    by (simp_all add: edge_payload_def ref_env_def)
  have svc: "axios_get_user_posts ?env alice
               = Some (user_posts_body JNum (select_user_posts twenty_posts alice None 20))"
    by (simp add: ref_env_def)
  have dates: "\<forall>p \<in> set twenty_posts. Date_time ?env (JNum (p_created_at p)) = Some (p_created_at p)"
    by (simp add: ref_env_def ref_Date_time_def)
  have pids: "\<forall>p \<in> set twenty_posts. Uuid_fromString ?env (p_id p) = Some (p_id p)"
    using tw(5) by (simp add: ref_env_def)
  have many: "20 \<le> length (filter (\<lambda>p. p_user_id p = alice) twenty_posts)"
    using tw(1,4) by simp
  have empty: "user_feeds empty_state bob = []"
    by (simp add: empty_state_def)
  have dist: "distinct (map p_created_at (select_user_posts twenty_posts alice None 20))"
    using tw(3) by (simp add: twenty_selected distinct_rev rev_map [symmetric])
  have miss: "redis_get 0 empty_state (page_cache_key bob (Some 0) (Some 20)) = None"
    by (simp add: redis_get_def empty_state_def)
  have res: "\<forall>p \<in> set (select_user_posts twenty_posts alice None 20).
               axios_get_post ?env (Uuid_toString ?env (p_id p)) = Some (row_json JNum p)"
    using find_by_id [OF tw(2)] by (simp add: twenty_selected ref_env_def)
  from backfill_on_follow [OF ids svc dates pids many,
      of empty_state 0 "row_json JNum"]
  obtain s' where
    ev: "handleEvent ?env empty_state
            \<lparr>routingKey = ''user.followed'', content = Some (edge_payload bob alice)\<rparr> = (Ack, s')"
    and page: "user_feeds empty_state bob = [] \<and>
      distinct (map p_created_at (select_user_posts twenty_posts alice None 20)) \<and>
      redis_get 0 empty_state (page_cache_key bob (Some 0) (Some 20)) = None \<and>
      (\<forall>p \<in> set (select_user_posts twenty_posts alice None 20).
          axios_get_post ?env (Uuid_toString ?env (p_id p)) = Some (row_json JNum p))
      \<longrightarrow>
        user_feeds s' bob = map (backfill_row p_id alice) (select_user_posts twenty_posts alice None 20) \<and>
        clustered (user_feeds s' bob) \<and>
        fst (get_feed ?env 0 s' bob (Some 20) (Some 0))
          = Json \<lparr>posts = map (row_json JNum) (select_user_posts twenty_posts alice None 20),
                  hasMore = False, offset = Some 20\<rparr>"
    by blast
  from page empty dist miss res have
    "user_feeds s' bob = map (backfill_row p_id alice) (rev twenty_posts)"
    "fst (get_feed ?env 0 s' bob (Some 20) (Some 0))
          = Json \<lparr>posts = map (row_json JNum) (rev twenty_posts), hasMore = False, offset = Some 20\<rparr>"
    unfolding twenty_selected by blast+
  with ev have "\<exists>s'. handleEvent ?env empty_state
            \<lparr>routingKey = ''user.followed'', content = Some (edge_payload bob alice)\<rparr> = (Ack, s') \<and>
         user_feeds s' bob = map (backfill_row p_id alice) (rev twenty_posts) \<and>
         fst (get_feed ?env 0 s' bob (Some 20) (Some 0))
           = Json \<lparr>posts = map (row_json JNum) (rev twenty_posts), hasMore = False,
                   offset = Some 20\<rparr>"
    by (intro exI [of _ s'] conjI)
  with many empty dist miss show ?thesis
    by (intro conjI)
qed

end
